theory Spec2Isabelle
  imports
    Main
    "HOL-Library.AList"
    "HOL-Library.Sublist"
    "HOL-Library.Char_ord"
    "HOL-Library.List_Lexorder"
    "HOL-Library.Multiset"
begin

section \<open>Strings\<close>

text \<open>
  Python strings are modelled as \<^typ>\<open>string\<close> restricted to ASCII text: case conversion
  touches the letters A-Z and a-z only. Comparison of strings (\<open><\<close>, \<open>sorted\<close>) is the
  lexicographic order of the character codes, which is the order of
  \<^theory_text>\<open>List_Lexorder\<close> over \<^theory_text>\<open>Char_ord\<close>.
\<close>

definition ascii_upper :: string where
  "ascii_upper = ''ABCDEFGHIJKLMNOPQRSTUVWXYZ''"

definition ascii_lower :: string where
  "ascii_lower = ''abcdefghijklmnopqrstuvwxyz''"

definition is_alpha :: "char \<Rightarrow> bool" where
  "is_alpha c = (c \<in> set ascii_upper \<or> c \<in> set ascii_lower)"

definition lower_char :: "char \<Rightarrow> char" where
  "lower_char c = (case map_of (zip ascii_upper ascii_lower) c of Some d \<Rightarrow> d | None \<Rightarrow> c)"

definition upper_char :: "char \<Rightarrow> char" where
  "upper_char c = (case map_of (zip ascii_lower ascii_upper) c of Some d \<Rightarrow> d | None \<Rightarrow> c)"

text \<open>\<^verbatim>\<open>s.lower()\<close> and \<^verbatim>\<open>s.upper()\<close>\<close>

definition lower :: "string \<Rightarrow> string" where
  "lower s = map lower_char s"

definition upper :: "string \<Rightarrow> string" where
  "upper s = map upper_char s"

text \<open>\<^verbatim>\<open>s.replace(a, b)\<close> for one-character strings \<open>a\<close> and \<open>b\<close>\<close>

definition replace_char :: "char \<Rightarrow> char \<Rightarrow> string \<Rightarrow> string" where
  "replace_char a b s = map (\<lambda>c. if c = a then b else c) s"

text \<open>
  \<^verbatim>\<open>s.title()\<close>: a letter that follows a letter is lower-cased, any other letter is
  upper-cased, and the other characters are kept. The flag says whether the previous
  character was a letter.
\<close>

fun title_from :: "bool \<Rightarrow> string \<Rightarrow> string" where
  "title_from prev [] = []"
| "title_from prev (c # cs) =
     (if is_alpha c
      then (if prev then lower_char c else upper_char c) # title_from True cs
      else c # title_from False cs)"

definition title :: "string \<Rightarrow> string" where
  "title s = title_from False s"

text \<open>\<^verbatim>\<open>needle in hay\<close> on strings: \<open>needle\<close> occurs in \<open>hay\<close> as a contiguous substring.\<close>

fun str_contains :: "string \<Rightarrow> string \<Rightarrow> bool" where
  "str_contains needle [] = (needle = [])"
| "str_contains needle (c # cs) = (prefix needle (c # cs) \<or> str_contains needle cs)"

text \<open>\<^verbatim>\<open>s.endswith(suf)\<close>\<close>

definition endswith :: "string \<Rightarrow> string \<Rightarrow> bool" where
  "endswith s suf = prefix (rev suf) (rev s)"

text \<open>\<^verbatim>\<open>sep.join(parts)\<close>\<close>

fun join :: "string \<Rightarrow> string list \<Rightarrow> string" where
  "join sep [] = []"
| "join sep [x] = x"
| "join sep (x # y # ys) = x @ sep @ join sep (y # ys)"

text \<open>\<^verbatim>\<open>s.split(sep)\<close> for a one-character separator: the pieces between the separators,
  empty pieces included.\<close>

fun split_on :: "char \<Rightarrow> string \<Rightarrow> string list" where
  "split_on sep [] = [[]]"
| "split_on sep (c # cs) =
     (if c = sep then [] # split_on sep cs
      else (case split_on sep cs of [] \<Rightarrow> [[c]] | w # ws \<Rightarrow> (c # w) # ws))"


section \<open>Paths\<close>

text \<open>
  A \<^verbatim>\<open>pathlib.Path\<close> is modelled as the list of its components below the file-system
  root \<^verbatim>\<open>/\<close>. Every path of the program is absolute: the project root defaults to
  \<^verbatim>\<open>Path.cwd()\<close> and all other paths are built from it. A path may still hold
  \<^verbatim>\<open>..\<close> components, which \<^verbatim>\<open>pathlib\<close> keeps and the operating system resolves.
\<close>

type_synonym path = "string list"

text \<open>\<^verbatim>\<open>str(path)\<close>\<close>

definition path_str :: "path \<Rightarrow> string" where
  "path_str p = (if p = [] then ''/'' else concat (map (\<lambda>c. CHR ''/'' # c) p))"

text \<open>\<^verbatim>\<open>path.name\<close> and \<^verbatim>\<open>path.parent\<close>\<close>

definition path_name :: "path \<Rightarrow> string" where
  "path_name p = (if p = [] then [] else last p)"

definition path_parent :: "path \<Rightarrow> path" where
  "path_parent p = butlast p"

text \<open>
  \<^verbatim>\<open>path.suffix\<close> and \<^verbatim>\<open>path.stem\<close> of a file name: with \<open>i\<close> the index of the last dot,
  the suffix is \<^verbatim>\<open>name[i:]\<close> and the stem \<^verbatim>\<open>name[:i]\<close> when \<open>0 < i < len(name) - 1\<close>;
  otherwise the suffix is empty and the stem is the whole name. Here \<open>k\<close> counts the
  characters after the last dot, so that \<open>i = length name - k - 1\<close>.
\<close>

definition after_last_dot :: "string \<Rightarrow> nat" where
  "after_last_dot name = length (takeWhile (\<lambda>c. c \<noteq> CHR ''.'') (rev name))"

definition has_suffix :: "string \<Rightarrow> bool" where
  "has_suffix name =
     (CHR ''.'' \<in> set name \<and> 0 < after_last_dot name \<and> after_last_dot name + 1 < length name)"

definition name_suffix :: "string \<Rightarrow> string" where
  "name_suffix name =
     (if has_suffix name then drop (length name - after_last_dot name - 1) name else [])"

definition name_stem :: "string \<Rightarrow> string" where
  "name_stem name =
     (if has_suffix name then take (length name - after_last_dot name - 1) name else name)"

text \<open>
  \<^verbatim>\<open>base / s\<close> for a string \<open>s\<close>: the string is cut at the slashes, empty and \<^verbatim>\<open>.\<close>
  pieces are dropped, and a string that starts with a slash replaces the base.
\<close>

definition parse_parts :: "string \<Rightarrow> string list" where
  "parse_parts s = filter (\<lambda>c. c \<noteq> [] \<and> c \<noteq> ''.'') (split_on CHR ''/'' s)"

definition path_join :: "path \<Rightarrow> string \<Rightarrow> path" where
  "path_join base s =
     (if prefix ''/'' s then parse_parts s else base @ parse_parts s)"

text \<open>\<^verbatim>\<open>str(path.relative_to(root))\<close>, used where \<open>root\<close> is a prefix of \<open>path\<close>\<close>

definition relative_str :: "path \<Rightarrow> path \<Rightarrow> string" where
  "relative_str root p =
     (if drop (length root) p = [] then ''.'' else join ''/'' (drop (length root) p))"


section \<open>The file system\<close>

text \<open>
  The file system is the list of its entries, each under its resolved absolute path, in
  the order in which the operating system enumerates them. A file holds text, or bytes
  that are not UTF-8 (reading them as text fails), or a JSON document: \<open>Json v\<close> stands
  for the text \<^verbatim>\<open>json.dumps(v, indent=2, ensure_ascii=False)\<close>, which \<^verbatim>\<open>json.loads\<close>
  reads back as \<open>v\<close>. The directory \<^verbatim>\<open>/\<close> always exists. Symbolic links, permissions and
  resource limits are not modelled: an operation fails only for the structural reasons
  written out below.
\<close>

datatype json =
    JNull
  | JBool bool
  | JNum int
  | JStr string
  | JArr "json list"
  | JObj "(string \<times> json) list"

datatype content = Text string | Binary | Json json

datatype entry = File content | Dir

type_synonym filesystem = "(path \<times> entry) list"

datatype error =
    AlreadyInitialized
  | WorkflowExists string
  | FileExistsError
  | FileNotFoundError
  | IsADirectoryError
  | UnicodeDecodeError
  | JSONDecodeError
  | AttributeError
  | TypeError
  | ValueError

text \<open>The entry kept under a resolved path.\<close>

definition entry_at :: "filesystem \<Rightarrow> path \<Rightarrow> entry option" where
  "entry_at fs p = (if p = [] then Some Dir else map_of fs p)"

definition dir_at :: "filesystem \<Rightarrow> path \<Rightarrow> bool" where
  "dir_at fs p = (entry_at fs p = Some Dir)"

text \<open>
  Resolution of a path as the operating system does it, one component at a time from
  \<open>cur\<close>: every step leaves a directory, \<^verbatim>\<open>..\<close> goes to the parent (and stays at \<^verbatim>\<open>/\<close>).
  The result is the resolved location, which need not exist; \<open>None\<close> when a component
  on the way is missing or is not a directory.
\<close>

fun resolve_from :: "filesystem \<Rightarrow> path \<Rightarrow> string list \<Rightarrow> path option" where
  "resolve_from fs cur [] = Some cur"
| "resolve_from fs cur (c # cs) =
     (if \<not> dir_at fs cur then None
      else resolve_from fs (if c = ''..'' then butlast cur else cur @ [c]) cs)"

text \<open>A path with a NUL character in it is refused before the operating system sees it.\<close>

definition valid_path :: "path \<Rightarrow> bool" where
  "valid_path p = list_all (\<lambda>c. CHR 0x00 \<notin> set c) p"

definition resolve :: "filesystem \<Rightarrow> path \<Rightarrow> path option" where
  "resolve fs p = (if valid_path p then resolve_from fs [] p else None)"

text \<open>
  \<^verbatim>\<open>os.stat\<close>, and \<^verbatim>\<open>path.exists()\<close>, \<^verbatim>\<open>path.is_file()\<close>, \<^verbatim>\<open>path.is_dir()\<close> on top of it;
  the three answer \<open>False\<close> where \<^verbatim>\<open>os.stat\<close> fails.
\<close>

definition stat :: "filesystem \<Rightarrow> path \<Rightarrow> entry option" where
  "stat fs p = (case resolve fs p of None \<Rightarrow> None | Some q \<Rightarrow> entry_at fs q)"

definition path_exists :: "filesystem \<Rightarrow> path \<Rightarrow> bool" where
  "path_exists fs p = (stat fs p \<noteq> None)"

definition is_file :: "filesystem \<Rightarrow> path \<Rightarrow> bool" where
  "is_file fs p = (case stat fs p of Some (File c) \<Rightarrow> True | _ \<Rightarrow> False)"

definition is_dir :: "filesystem \<Rightarrow> path \<Rightarrow> bool" where
  "is_dir fs p = (stat fs p = Some Dir)"

text \<open>\<^verbatim>\<open>path.mkdir(exist_ok=True)\<close>: an existing directory is accepted, an existing file is not.\<close>

definition mkdir_exist_ok :: "filesystem \<Rightarrow> path \<Rightarrow> error + filesystem" where
  "mkdir_exist_ok fs p =
     (case resolve fs p of
        None \<Rightarrow> Inl (if valid_path p then FileNotFoundError else ValueError)
      | Some q \<Rightarrow>
          (case entry_at fs q of
             Some Dir \<Rightarrow> Inr fs
           | Some (File c) \<Rightarrow> Inl FileExistsError
           | None \<Rightarrow> Inr (fs @ [(q, Dir)])))"

text \<open>
  Writing a file (\<^verbatim>\<open>path.write_text\<close>) creates it or replaces its content; a new file
  comes last in the enumeration order.
\<close>

definition write_file :: "filesystem \<Rightarrow> path \<Rightarrow> content \<Rightarrow> error + filesystem" where
  "write_file fs p c =
     (case resolve fs p of
        None \<Rightarrow> Inl (if valid_path p then FileNotFoundError else ValueError)
      | Some q \<Rightarrow>
          if dir_at fs q then Inl IsADirectoryError
          else Inr (AList.update q (File c) fs))"

text \<open>Reading a file: its content, before any decoding.\<close>

definition read_file :: "filesystem \<Rightarrow> path \<Rightarrow> error + content" where
  "read_file fs p =
     (case stat fs p of
        None \<Rightarrow> Inl (if valid_path p then FileNotFoundError else ValueError)
      | Some Dir \<Rightarrow> Inl IsADirectoryError
      | Some (File c) \<Rightarrow> Inr c)"

text \<open>
  \<^verbatim>\<open>dir.glob("*" + ext)\<close> and \<^verbatim>\<open>dir.rglob("*" + ext)\<close>: the children, respectively all
  descendants, of the directory whose name ends with \<open>ext\<close> (every name for the pattern
  \<^verbatim>\<open>*\<close>, where \<open>ext\<close> is empty), files and directories alike. The paths returned extend
  the path the directory was given by. A path that is not a directory has none.
\<close>

definition glob :: "filesystem \<Rightarrow> path \<Rightarrow> string \<Rightarrow> path list" where
  "glob fs d ext =
     (case resolve fs d of
        None \<Rightarrow> []
      | Some q \<Rightarrow>
          if dir_at fs q
          then [d @ [last p]. (p, e) \<leftarrow> fs, p \<noteq> [] \<and> butlast p = q \<and> endswith (last p) ext]
          else [])"

definition rglob :: "filesystem \<Rightarrow> path \<Rightarrow> string \<Rightarrow> path list" where
  "rglob fs d ext =
     (case resolve fs d of
        None \<Rightarrow> []
      | Some q \<Rightarrow>
          if dir_at fs q
          then [d @ drop (length q) p. (p, e) \<leftarrow> fs, strict_prefix q p \<and> endswith (last p) ext]
          else [])"


section \<open>The environment\<close>

text \<open>
  What the program takes from outside its own source. Both classes are constructed over a
  project root. \<^verbatim>\<open>json.dumps\<close> and \<^verbatim>\<open>json.loads\<close> are parameters: the first gives
  the text of a \<open>Json\<close> file to a reader that wants text, the second parses a file
  that holds other text. The clock is one reading of \<^verbatim>\<open>datetime.now().isoformat()\<close>.
  The package's templates (\<^verbatim>\<open>templates/workflow.md\<close> and \<^verbatim>\<open>templates/index.md\<close>) are not
  among the sources and live outside the modelled file system: rendering them is a
  parameter, from the workflow title (respectively the project name) and the clock to
  the rendered text.
\<close>

record env =
  project_root :: path
  json_dumps :: "json \<Rightarrow> string"
  json_loads :: "string \<Rightarrow> json option"
  now_iso :: string
  workflow_template :: "string \<Rightarrow> string \<Rightarrow> string"
  index_template :: "string \<Rightarrow> string \<Rightarrow> string"

text \<open>\<^verbatim>\<open>path.read_text(encoding="utf-8")\<close>\<close>

definition read_text :: "env \<Rightarrow> filesystem \<Rightarrow> path \<Rightarrow> error + string" where
  "read_text e fs p =
     (case read_file fs p of
        Inl err \<Rightarrow> Inl err
      | Inr (Text s) \<Rightarrow> Inr s
      | Inr Binary \<Rightarrow> Inl UnicodeDecodeError
      | Inr (Json v) \<Rightarrow> Inr (json_dumps e v))"


section \<open>Regular expressions\<close>

text \<open>
  The entry-point patterns of the analyzer use literal text, a group of literal
  alternatives, a character class and a repeated negated class. A pattern is the
  sequence of its pieces. \<open>match_here\<close> is the backtracking match of \<^verbatim>\<open>re\<close> at the
  start of the text: alternatives are tried in order, the repetition is greedy and
  gives characters back, and the result is the length of the match.
\<close>

datatype rx =
    Lit string
  | Alt "string list"
  | OneOf "char list"
  | NoneOfPlus "char list"

type_synonym regex = "rx list"

fun first_some :: "'a option list \<Rightarrow> 'a option" where
  "first_some [] = None"
| "first_some (None # xs) = first_some xs"
| "first_some (Some x # xs) = Some x"

fun match_here :: "regex \<Rightarrow> string \<Rightarrow> nat option" where
  "match_here [] s = Some 0"
| "match_here (Lit w # rs) s =
     (if prefix w s
      then map_option (\<lambda>n. length w + n) (match_here rs (drop (length w) s))
      else None)"
| "match_here (Alt ws # rs) s =
     first_some
       (map (\<lambda>w. if prefix w s
                  then map_option (\<lambda>n. length w + n) (match_here rs (drop (length w) s))
                  else None) ws)"
| "match_here (OneOf cs # rs) s =
     (case s of
        [] \<Rightarrow> None
      | c # s' \<Rightarrow> if c \<in> set cs then map_option Suc (match_here rs s') else None)"
| "match_here (NoneOfPlus cs # rs) s =
     (let k = length (takeWhile (\<lambda>c. c \<notin> set cs) s)
      in first_some
           (map (\<lambda>n. map_option (\<lambda>m. n + m) (match_here rs (drop n s))) (rev [1..<Suc k])))"

text \<open>
  \<^verbatim>\<open>[m.group(0) for m in re.finditer(pattern, content)]\<close>: the matches from left to
  right, each search starting where the previous match ended.
\<close>

fun finditer :: "regex \<Rightarrow> string \<Rightarrow> string list" where
  "finditer r [] = (case match_here r [] of None \<Rightarrow> [] | Some n \<Rightarrow> [[]])"
| "finditer r (c # cs) =
     (case match_here r (c # cs) of
        None \<Rightarrow> finditer r cs
      | Some n \<Rightarrow> take n (c # cs) # finditer r (drop (n - 1) cs))"


section \<open>CodeAnalyzer\<close>

text \<open>\<^verbatim>\<open>CodeAnalyzer._is_excluded\<close>\<close>

definition excluded_patterns :: "string list" where
  "excluded_patterns =
     [''.git'', ''.venv'', ''venv'', ''node_modules'', ''__pycache__'', ''.pytest_cache'',
      ''dist'', ''build'', ''.business-logic'']"

definition is_excluded :: "path \<Rightarrow> bool" where
  "is_excluded p = list_ex (\<lambda>pattern. str_contains pattern (path_str p)) excluded_patterns"

text \<open>
  The header shared by the loops of \<^verbatim>\<open>_count_files\<close>, \<^verbatim>\<open>_search_patterns\<close> and
  \<^verbatim>\<open>_search_pattern_in_files\<close>:
  \<^verbatim>\<open>for file in self.project_root.rglob("*"): if file.is_file() and not self._is_excluded(file)\<close>
\<close>

definition scan_files :: "env \<Rightarrow> filesystem \<Rightarrow> path list" where
  "scan_files e fs =
     filter (\<lambda>file. is_file fs file \<and> \<not> is_excluded file) (rglob fs (project_root e) [])"

text \<open>\<^verbatim>\<open>CodeAnalyzer._detect_languages\<close>\<close>

definition analyzer_language_extensions :: "(string \<times> string) list" where
  "analyzer_language_extensions =
     [(''.py'', ''Python''), (''.js'', ''JavaScript''), (''.ts'', ''TypeScript''),
      (''.jsx'', ''React''), (''.tsx'', ''React/TypeScript''), (''.java'', ''Java''),
      (''.go'', ''Go''), (''.rs'', ''Rust''), (''.rb'', ''Ruby''), (''.php'', ''PHP''),
      (''.cs'', ''C#''), (''.cpp'', ''C++''), (''.c'', ''C''), (''.swift'', ''Swift''),
      (''.kt'', ''Kotlin'')]"

definition analyzer_detected :: "env \<Rightarrow> filesystem \<Rightarrow> (string \<times> nat) list" where
  "analyzer_detected e fs =
     fold (\<lambda>(ext, lang) detected.
             let files = rglob fs (project_root e) ext
             in if files \<noteq> [] then AList.update lang (length files) detected else detected)
          analyzer_language_extensions []"

definition analyzer_detect_languages :: "env \<Rightarrow> filesystem \<Rightarrow> string list" where
  "analyzer_detect_languages e fs =
     map fst (sort_key (\<lambda>x. - int (snd x)) (analyzer_detected e fs))"

text \<open>\<^verbatim>\<open>CodeAnalyzer._count_files\<close>\<close>

record file_counts =
  total_files :: nat
  source_files :: nat
  test_files :: nat
  config_files :: nat

definition count_file :: "path \<Rightarrow> file_counts \<Rightarrow> file_counts" where
  "count_file file counts =
     \<lparr> total_files = total_files counts + 1,
       source_files = source_files counts +
         (if name_suffix (path_name file) \<in> set [''.py'', ''.js'', ''.ts'', ''.java'', ''.go'', ''.rs'']
          then 1 else 0),
       test_files = test_files counts +
         (if str_contains ''test'' (lower (path_name file))
             \<or> str_contains ''test'' (lower (path_str (path_parent file)))
          then 1 else 0),
       config_files = config_files counts +
         (if name_suffix (path_name file)
               \<in> set [''.json'', ''.yaml'', ''.yml'', ''.toml'', ''.ini'', ''.env'']
          then 1 else 0) \<rparr>"

definition count_files :: "env \<Rightarrow> filesystem \<Rightarrow> file_counts" where
  "count_files e fs =
     fold count_file (scan_files e fs)
       \<lparr> total_files = 0, source_files = 0, test_files = 0, config_files = 0 \<rparr>"

text \<open>
  \<^verbatim>\<open>CodeAnalyzer._search_pattern_in_files\<close>: a file that cannot be read as text is
  skipped; every match of a file is appended.
\<close>

definition search_pattern_in_files :: "env \<Rightarrow> filesystem \<Rightarrow> regex \<Rightarrow> (path \<times> string) list" where
  "search_pattern_in_files e fs pattern =
     fold (\<lambda>file matches.
             case read_text e fs file of
               Inl err \<Rightarrow> matches
             | Inr content \<Rightarrow>
                 fold (\<lambda>m ms. ms @ [(file, m)]) (finditer pattern content) matches)
          (scan_files e fs) []"

text \<open>
  \<^verbatim>\<open>CodeAnalyzer._find_entry_points\<close>. \<open>quoted_argument\<close> is the tail
  \<^verbatim>\<open>\(['\"]([^'\"]+)\<close> that six of the patterns share.
\<close>

definition http_methods :: "string list" where
  "http_methods = [''get'', ''post'', ''put'', ''delete'', ''patch'']"

definition quoted_argument :: "regex" where
  "quoted_argument = [Lit ''('', OneOf [CHR 0x27, CHR 0x22], NoneOfPlus [CHR 0x27, CHR 0x22]]"

text \<open>
  The patterns, in the order of the source:
  \<^item> API Endpoint:
    \<^verbatim>\<open>@app\.(get|post|put|delete|patch)\(['\"]([^'\"]+)\<close>,
    \<^verbatim>\<open>@router\.(get|post|put|delete|patch)\(['\"]([^'\"]+)\<close>,
    \<^verbatim>\<open>app\.(get|post|put|delete|patch)\(['\"]([^'\"]+)\<close>;
  \<^item> CLI Command:
    \<^verbatim>\<open>@click\.command\(\)\<close>, \<^verbatim>\<open>@typer\.command\(\)\<close>, \<^verbatim>\<open>def main\(\<close>;
  \<^item> Event Handler:
    \<^verbatim>\<open>@event\.\<close>, \<^verbatim>\<open>\.on\(['\"]([^'\"]+)\<close>, \<^verbatim>\<open>addEventListener\(['\"]([^'\"]+)\<close>.
\<close>

definition entry_point_patterns :: "(string \<times> regex list) list" where
  "entry_point_patterns =
     [(''API Endpoint'',
        [[Lit ''@app.'', Alt http_methods] @ quoted_argument,
         [Lit ''@router.'', Alt http_methods] @ quoted_argument,
         [Lit ''app.'', Alt http_methods] @ quoted_argument]),
      (''CLI Command'',
        [[Lit ''@click.command()''],
         [Lit ''@typer.command()''],
         [Lit ''def main('']]),
      (''Event Handler'',
        [[Lit ''@event.''],
         [Lit ''.on''] @ quoted_argument,
         [Lit ''addEventListener''] @ quoted_argument])]"

record entry_point =
  ep_type :: string
  ep_file :: string
  ep_match :: string

definition find_entry_points :: "env \<Rightarrow> filesystem \<Rightarrow> entry_point list" where
  "find_entry_points e fs =
     fold (\<lambda>(entry_type, pattern_list) entry_points.
             fold (\<lambda>pattern entry_points.
                     fold (\<lambda>(file, m) entry_points.
                             entry_points @
                               [\<lparr> ep_type = entry_type,
                                  ep_file = relative_str (project_root e) file,
                                  ep_match = m \<rparr>])
                          (search_pattern_in_files e fs pattern) entry_points)
                  pattern_list entry_points)
          entry_point_patterns []"


section \<open>WorkflowManager\<close>

definition buslog_path :: "env \<Rightarrow> path" where
  "buslog_path e = project_root e @ [''.business-logic'']"

definition workflows_path :: "env \<Rightarrow> path" where
  "workflows_path e = buslog_path e @ [''workflows'']"

definition config_path :: "env \<Rightarrow> path" where
  "config_path e = buslog_path e @ [''config.json'']"

definition index_path :: "env \<Rightarrow> path" where
  "index_path e = buslog_path e @ [''index.md'']"

text \<open>\<^verbatim>\<open>WorkflowManager.is_initialized\<close>\<close>

definition is_initialized :: "env \<Rightarrow> filesystem \<Rightarrow> bool" where
  "is_initialized e fs =
     (path_exists fs (buslog_path e) \<and> path_exists fs (config_path e)
      \<and> path_exists fs (workflows_path e))"

text \<open>
  \<^verbatim>\<open>WorkflowManager._detect_languages\<close>: the labels are collected in a set, kept here as
  a list without repetition, and returned sorted.
\<close>

definition manager_language_extensions :: "(string \<times> string) list" where
  "manager_language_extensions =
     [(''.py'', ''Python''), (''.js'', ''JavaScript''), (''.ts'', ''TypeScript''),
      (''.java'', ''Java''), (''.go'', ''Go''), (''.rs'', ''Rust''), (''.rb'', ''Ruby''),
      (''.php'', ''PHP''), (''.cs'', ''C#''), (''.cpp'', ''C++''), (''.c'', ''C'')]"

definition manager_detected :: "env \<Rightarrow> filesystem \<Rightarrow> string list" where
  "manager_detected e fs =
     fold (\<lambda>(ext, lang) detected.
             if rglob fs (project_root e) ext \<noteq> [] then List.insert lang detected else detected)
          manager_language_extensions []"

definition manager_detect_languages :: "env \<Rightarrow> filesystem \<Rightarrow> string list" where
  "manager_detect_languages e fs = sort (manager_detected e fs)"

text \<open>The configuration that \<^verbatim>\<open>initialize\<close> writes.\<close>

definition initial_config :: "string \<Rightarrow> string \<Rightarrow> string list \<Rightarrow> json" where
  "initial_config project_name created_at languages =
     JObj [(''project_name'', JStr project_name),
           (''version'', JStr ''0.1.0''),
           (''created_at'', JStr created_at),
           (''languages'', JArr (map JStr languages)),
           (''frameworks'', JArr []),
           (''workflows'', JArr []),
           (''settings'',
              JObj [(''auto_detect'', JBool False),
                    (''mermaid_theme'', JStr ''default''),
                    (''show_line_numbers'', JBool True),
                    (''collapse_by_default'', JBool False)]),
           (''metadata'',
              JObj [(''repository'', JStr []),
                    (''main_branch'', JStr ''main''),
                    (''authors'', JArr [])])]"

text \<open>
  \<^verbatim>\<open>WorkflowManager.initialize\<close>. An operation of the manager returns its result, or the
  exception it raised, together with the file system it leaves behind.
\<close>

definition initialize ::
  "env \<Rightarrow> string option \<Rightarrow> bool \<Rightarrow> filesystem \<Rightarrow> (error + unit) \<times> filesystem" where
  "initialize e project_name force fs =
     (if is_initialized e fs \<and> \<not> force then (Inl AlreadyInitialized, fs)
      else
        case mkdir_exist_ok fs (buslog_path e) of
          Inl err \<Rightarrow> (Inl err, fs)
        | Inr fs1 \<Rightarrow>
       (case mkdir_exist_ok fs1 (workflows_path e) of
          Inl err \<Rightarrow> (Inl err, fs1)
        | Inr fs2 \<Rightarrow>
       (let name = (case project_name of
                      None \<Rightarrow> path_name (project_root e)
                    | Some n \<Rightarrow> if n = [] then path_name (project_root e) else n);
            config = initial_config name (now_iso e) (manager_detect_languages e fs2)
        in case write_file fs2 (config_path e) (Json config) of
             Inl err \<Rightarrow> (Inl err, fs2)
           | Inr fs3 \<Rightarrow>
          (case write_file fs3 (index_path e) (Text (index_template e name (now_iso e))) of
             Inl err \<Rightarrow> (Inl err, fs3)
           | Inr fs4 \<Rightarrow> (Inr (), fs4)))))"

text \<open>\<^verbatim>\<open>WorkflowManager.get_config\<close>\<close>

definition get_config :: "env \<Rightarrow> filesystem \<Rightarrow> error + json" where
  "get_config e fs =
     (if \<not> path_exists fs (config_path e) then Inr (JObj [])
      else
        case read_file fs (config_path e) of
          Inl err \<Rightarrow> Inl err
        | Inr (Json v) \<Rightarrow> Inr v
        | Inr (Text s) \<Rightarrow>
            (case json_loads e s of None \<Rightarrow> Inl JSONDecodeError | Some v \<Rightarrow> Inr v)
        | Inr Binary \<Rightarrow> Inl UnicodeDecodeError)"

text \<open>
  \<^verbatim>\<open>name in value\<close> for a value read from JSON: membership in a list, key of a
  dictionary, substring of a string; the other values are not containers.
\<close>

definition json_contains :: "json \<Rightarrow> string \<Rightarrow> error + bool" where
  "json_contains v name =
     (case v of
        JArr xs \<Rightarrow> Inr (JStr name \<in> set xs)
      | JObj kv \<Rightarrow> Inr (name \<in> set (map fst kv))
      | JStr s \<Rightarrow> Inr (str_contains name s)
      | _ \<Rightarrow> Inl TypeError)"

text \<open>\<^verbatim>\<open>WorkflowManager._add_workflow_to_config\<close>\<close>

definition add_workflow_to_config ::
  "env \<Rightarrow> string \<Rightarrow> filesystem \<Rightarrow> (error + unit) \<times> filesystem" where
  "add_workflow_to_config e workflow_name fs =
     (case get_config e fs of
        Inl err \<Rightarrow> (Inl err, fs)
      | Inr (JObj kv) \<Rightarrow>
          (let current = (case map_of kv ''workflows'' of None \<Rightarrow> JArr [] | Some v \<Rightarrow> v)
           in case json_contains current workflow_name of
                Inl err \<Rightarrow> (Inl err, fs)
              | Inr True \<Rightarrow> (Inr (), fs)
              | Inr False \<Rightarrow>
                  (case current of
                     JArr ws \<Rightarrow>
                       (case write_file fs (config_path e)
                               (Json (JObj (AList.update ''workflows''
                                              (JArr (ws @ [JStr workflow_name])) kv))) of
                          Inl err \<Rightarrow> (Inl err, fs)
                        | Inr fs' \<Rightarrow> (Inr (), fs'))
                   | _ \<Rightarrow> (Inl AttributeError, fs)))
      | Inr _ \<Rightarrow> (Inl AttributeError, fs))"

text \<open>\<^verbatim>\<open>WorkflowManager.add_workflow\<close>\<close>

definition safe_name :: "string \<Rightarrow> string" where
  "safe_name workflow_name = replace_char CHR '' '' CHR ''-'' (lower workflow_name)"

definition workflow_path :: "env \<Rightarrow> string \<Rightarrow> path" where
  "workflow_path e workflow_name =
     path_join (workflows_path e) (safe_name workflow_name @ ''.md'')"

definition add_workflow ::
  "env \<Rightarrow> string \<Rightarrow> filesystem \<Rightarrow> (error + path) \<times> filesystem" where
  "add_workflow e workflow_name fs =
     (if path_exists fs (workflow_path e workflow_name)
      then (Inl (WorkflowExists (safe_name workflow_name)), fs)
      else
        let workflow_title = title (replace_char CHR ''-'' CHR '' '' workflow_name);
            content = workflow_template e workflow_title (now_iso e)
        in case write_file fs (workflow_path e workflow_name) (Text content) of
             Inl err \<Rightarrow> (Inl err, fs)
           | Inr fs1 \<Rightarrow>
               (case add_workflow_to_config e (safe_name workflow_name) fs1 of
                  (Inl err, fs2) \<Rightarrow> (Inl err, fs2)
                | (Inr u, fs2) \<Rightarrow> (Inr (workflow_path e workflow_name), fs2)))"

text \<open>\<^verbatim>\<open>WorkflowManager.list_workflows\<close>\<close>

record workflow_info =
  wf_name :: string
  wf_file :: string
  wf_path :: string

definition workflow_info_of :: "path \<Rightarrow> workflow_info" where
  "workflow_info_of workflow_file =
     \<lparr> wf_name = title (replace_char CHR ''-'' CHR '' '' (name_stem (path_name workflow_file))),
       wf_file = path_name workflow_file,
       wf_path = path_str workflow_file \<rparr>"

definition list_workflows :: "env \<Rightarrow> filesystem \<Rightarrow> workflow_info list" where
  "list_workflows e fs =
     (if \<not> path_exists fs (workflows_path e) then []
      else sort_key wf_name (map workflow_info_of (glob fs (workflows_path e) ''.md'')))"


section \<open>Notions used by the statements\<close>

text \<open>A field of the stored configuration, as \<^verbatim>\<open>get_config\<close> reads it.\<close>

definition config_field :: "env \<Rightarrow> filesystem \<Rightarrow> string \<Rightarrow> json option" where
  "config_field e fs key =
     (case get_config e fs of Inr (JObj kv) \<Rightarrow> map_of kv key | _ \<Rightarrow> None)"

text \<open>The matches of a pattern in one file; a file that cannot be read as text has none.\<close>

definition file_matches :: "env \<Rightarrow> filesystem \<Rightarrow> regex \<Rightarrow> path \<Rightarrow> string list" where
  "file_matches e fs pattern file =
     (case read_text e fs file of Inl err \<Rightarrow> [] | Inr content \<Rightarrow> finditer pattern content)"

text \<open>\<^verbatim>\<open>str(path)\<close> without the special case of the root: every component after a slash.\<close>

definition slashed :: "path \<Rightarrow> string" where
  "slashed p = concat (map (\<lambda>c. CHR ''/'' # c) p)"

text \<open>
  Case-insensitive ascending order of a list of titles, as the specification words it:
  the titles are compared after case folding. Folding to lower case is what
  \<^verbatim>\<open>str.lower\<close> and \<^verbatim>\<open>str.casefold\<close> do on ASCII text; folding to upper case is the other
  reading.
\<close>

definition sorted_ignoring_case :: "string list \<Rightarrow> bool" where
  "sorted_ignoring_case titles = sorted (map lower titles)"

definition sorted_ignoring_case_upper :: "string list \<Rightarrow> bool" where
  "sorted_ignoring_case_upper titles = sorted (map upper titles)"


section \<open>Sample projects\<close>

text \<open>
  A project at \<^verbatim>\<open>/home/dev/shop\<close>. The JSON functions of the sample environment are
  never called on the samples: no sample file holds JSON outside the store folder, which
  the scanner skips, and the configuration is always a \<open>Json\<close> file.
\<close>

definition sample_env :: env where
  "sample_env =
     \<lparr> project_root = [''home'', ''dev'', ''shop''],
       json_dumps = (\<lambda>v. []),
       json_loads = (\<lambda>s. None),
       now_iso = ''2024-05-01T09:30:00'',
       workflow_template = (\<lambda>workflow_title date. ''# '' @ workflow_title),
       index_template = (\<lambda>project_name date. ''# '' @ project_name) \<rparr>"

definition sample_dirs :: filesystem where
  "sample_dirs = [([''home''], Dir), ([''home'', ''dev''], Dir), ([''home'', ''dev'', ''shop''], Dir)]"

text \<open>The tree of the scenario: \<^verbatim>\<open>a.py\<close>, \<^verbatim>\<open>b.js\<close> and \<^verbatim>\<open>tests/c.py\<close>.\<close>

definition scenario_files :: "path \<Rightarrow> filesystem" where
  "scenario_files root =
     [(root @ [''a.py''], File (Text ''import os'')),
      (root @ [''b.js''], File (Text ''let x = 1'')),
      (root @ [''tests''], Dir),
      (root @ [''tests'', ''c.py''], File (Text ''assert True''))]"

definition sample_tree :: filesystem where
  "sample_tree = sample_dirs @ scenario_files [''home'', ''dev'', ''shop'']"

text \<open>The same tree in a project whose path has the word \<^verbatim>\<open>test\<close> in it.\<close>

definition contest_env :: env where
  "contest_env = sample_env \<lparr> project_root := [''home'', ''dev'', ''contest''] \<rparr>"

definition contest_tree :: filesystem where
  "contest_tree =
     [([''home''], Dir), ([''home'', ''dev''], Dir), ([''home'', ''dev'', ''contest''], Dir)]
     @ scenario_files [''home'', ''dev'', ''contest'']"

text \<open>Two files, one with two definitions of \<^verbatim>\<open>main\<close> and one with a single one.\<close>

definition two_file_tree :: filesystem where
  "two_file_tree =
     sample_dirs @
     [([''home'', ''dev'', ''shop'', ''cli.py''],
         File (Text ''def main(): run() def main(argv): run(argv)'')),
      ([''home'', ''dev'', ''shop'', ''tool.py''], File (Text ''def main(): pass''))]"

text \<open>The store that \<^verbatim>\<open>initialize\<close> creates in the sample tree.\<close>

definition sample_store_path :: path where
  "sample_store_path = [''home'', ''dev'', ''shop'', ''.business-logic'']"

definition store_entries :: "string list \<Rightarrow> filesystem" where
  "store_entries workflows =
     [(sample_store_path, Dir),
      (sample_store_path @ [''workflows''], Dir),
      (sample_store_path @ [''config.json''],
         File (Json (JObj
           [(''project_name'', JStr ''shop''),
            (''version'', JStr ''0.1.0''),
            (''created_at'', JStr ''2024-05-01T09:30:00''),
            (''languages'', JArr [JStr ''JavaScript'', JStr ''Python'']),
            (''frameworks'', JArr []),
            (''workflows'', JArr (map JStr workflows)),
            (''settings'',
               JObj [(''auto_detect'', JBool False),
                     (''mermaid_theme'', JStr ''default''),
                     (''show_line_numbers'', JBool True),
                     (''collapse_by_default'', JBool False)]),
            (''metadata'',
               JObj [(''repository'', JStr []),
                     (''main_branch'', JStr ''main''),
                     (''authors'', JArr [])])]))),
      (sample_store_path @ [''index.md''], File (Text ''# shop''))]"

definition document :: "string \<Rightarrow> string \<Rightarrow> path \<times> entry" where
  "document file_name text = (sample_store_path @ [''workflows'', file_name], File (Text text))"

definition sample_store :: filesystem where
  "sample_store = sample_tree @ store_entries []"

text \<open>The store after \<^verbatim>\<open>add_workflow("checkout")\<close>.\<close>

definition checkout_store :: filesystem where
  "checkout_store =
     sample_tree @ store_entries [''checkout''] @ [document ''checkout.md'' ''# Checkout'']"

text \<open>A store with four documents.\<close>

definition four_document_store :: filesystem where
  "four_document_store =
     sample_tree @ store_entries [''_draft'', ''api'', ''user_auth'', ''users''] @
     [document ''_draft.md'' ''# _Draft'', document ''api.md'' ''# Api'',
      document ''user_auth.md'' ''# User_Auth'', document ''users.md'' ''# Users'']"

text \<open>The store after \<^verbatim>\<open>add_workflow("User Authentication")\<close>.\<close>

definition authentication_store :: filesystem where
  "authentication_store =
     sample_tree @ store_entries [''user-authentication''] @
     [document ''user-authentication.md'' ''# User Authentication'']"

text \<open>A project whose own path has a marker in it: \<^verbatim>\<open>rebuild\<close> contains \<^verbatim>\<open>build\<close>.\<close>

definition rebuild_env :: env where
  "rebuild_env = sample_env \<lparr> project_root := [''home'', ''dev'', ''rebuild''] \<rparr>"

definition rebuild_tree :: filesystem where
  "rebuild_tree =
     [([''home''], Dir), ([''home'', ''dev''], Dir), ([''home'', ''dev'', ''rebuild''], Dir),
      ([''home'', ''dev'', ''rebuild'', ''app.py''], File (Text ''def main(): pass''))]"


text \<open>
  The names of the scenario below the root, and how many of them a pattern
  \<^verbatim>\<open>"*" + ext\<close> matches.
\<close>

definition scenario_names :: "path list" where
  "scenario_names = [[''a.py''], [''b.js''], [''tests''], [''tests'', ''c.py'']]"

definition scenario_count :: "string \<Rightarrow> nat" where
  "scenario_count ext = length (filter (\<lambda>n. endswith (last n) ext) scenario_names)"


text \<open>A tree whose only file is a script of a dependency under \<^verbatim>\<open>node_modules\<close>.\<close>

definition dependency_tree :: filesystem where
  "dependency_tree =
     sample_dirs @
     [([''home'', ''dev'', ''shop'', ''node_modules''], Dir),
      ([''home'', ''dev'', ''shop'', ''node_modules'', ''run.rb''], File (Text ''def main(): pass''))]"


section \<open>Strings and paths\<close>

lemma str_contains_sublist: "str_contains needle hay \<longleftrightarrow> sublist needle hay"
  by (induction hay) (auto simp: sublist_Cons_right)


lemma path_str_slashed: "p \<noteq> [] \<Longrightarrow> path_str p = slashed p"
  by (simp add: path_str_def slashed_def)


lemma slashed_Cons: "slashed (c # p) = CHR ''/'' # c @ slashed p"
  by (simp add: slashed_def)

lemma slashed_hd: "slashed p = [] \<or> hd (slashed p) = CHR ''/''"
  by (cases p) (simp_all add: slashed_def)

lemma sublist_before_slash:
  assumes "CHR ''/'' \<notin> set w" and "rest = [] \<or> hd rest = CHR ''/''"
  shows "sublist w (xs @ rest) \<longleftrightarrow> sublist w xs \<or> sublist w rest"
proof
  assume "sublist w (xs @ rest)"
  then consider "sublist w xs" | "sublist w rest"
    | w1 w2 where "w = w1 @ w2" "suffix w1 xs" "prefix w2 rest"
    by (auto simp: sublist_append)
  then show "sublist w xs \<or> sublist w rest"
  proof cases
    case 3
    show ?thesis
    proof (cases w2)
      case Nil
      with 3 show ?thesis by (auto simp: sublist_altdef)
    next
      case (Cons a w2')
      with 3(3) have "rest \<noteq> []" "hd rest = a" by (auto simp: prefix_def)
      with assms(2) have "a = CHR ''/''" by auto
      with Cons 3(1) assms(1) show ?thesis by simp
    qed
  qed auto
next
  assume "sublist w xs \<or> sublist w rest"
  then show "sublist w (xs @ rest)" by (auto simp: sublist_append)
qed

lemma sublist_slashed:
  assumes "CHR ''/'' \<notin> set w" and "w \<noteq> []"
  shows "sublist w (slashed p) \<longleftrightarrow> (\<exists>c \<in> set p. sublist w c)"
proof (induction p)
  case Nil
  show ?case using assms by (simp add: slashed_def)
next
  case (Cons c p)
  have "sublist w (slashed (c # p)) \<longleftrightarrow> sublist w ((CHR ''/'' # c) @ slashed p)"
    by (simp add: slashed_Cons)
  also have "\<dots> \<longleftrightarrow> sublist w (CHR ''/'' # c) \<or> sublist w (slashed p)"
    by (rule sublist_before_slash[OF assms(1) slashed_hd])
  also have "sublist w (CHR ''/'' # c) \<longleftrightarrow> sublist w c"
    using assms by (cases w) (auto simp: sublist_Cons_right)
  finally show ?case using Cons.IH by auto
qed

lemma sublist_path_str:
  assumes "CHR ''/'' \<notin> set w" and "w \<noteq> []"
  shows "sublist w (path_str p) \<longleftrightarrow> (\<exists>c \<in> set p. sublist w c)"
proof (cases "p = []")
  case True
  have "\<not> sublist w ''/''"
    using assms by (cases w) (auto simp: sublist_Cons_right)
  with True show ?thesis by (simp add: path_str_def)
next
  case False
  then show ?thesis using sublist_slashed[OF assms] by (simp add: path_str_slashed)
qed

lemma is_excluded_sublist:
  "is_excluded p \<longleftrightarrow> (\<exists>m \<in> set excluded_patterns. sublist m (path_str p))"
  by (simp add: is_excluded_def list_ex_iff str_contains_sublist)

lemma excluded_patterns_plain:
  "m \<in> set excluded_patterns \<Longrightarrow> CHR ''/'' \<notin> set m \<and> m \<noteq> []"
  by (auto simp: excluded_patterns_def)

lemma is_excluded_components:
  "is_excluded p \<longleftrightarrow> (\<exists>c \<in> set p. \<exists>m \<in> set excluded_patterns. sublist m c)"
  using sublist_path_str excluded_patterns_plain
  by (auto simp: is_excluded_sublist)

lemma component_excluded:
  "c \<in> set p \<Longrightarrow> c \<in> set excluded_patterns \<Longrightarrow> is_excluded p"
  by (auto simp: is_excluded_components)

lemma is_excluded_append: "is_excluded (p @ q) \<longleftrightarrow> is_excluded p \<or> is_excluded q"
  by (auto simp: is_excluded_components)


section \<open>Writing keeps the rest of the file system\<close>

lemma resolve_from_dirs:
  assumes "\<And>x. dir_at fs' x = dir_at fs x"
  shows "resolve_from fs' cur cs = resolve_from fs cur cs"
proof (induction cs arbitrary: cur)
  case Nil
  show ?case by simp
next
  case (Cons c cs)
  show ?case unfolding resolve_from.simps assms Cons.IH ..
qed

lemma resolve_dirs:
  assumes "\<And>x. dir_at fs' x = dir_at fs x"
  shows "resolve fs' p = resolve fs p"
  unfolding resolve_def using resolve_from_dirs[of fs' fs, OF assms] by simp

lemma write_file_InrD:
  assumes "write_file fs p c = Inr fs'"
  obtains q where "resolve fs p = Some q" "\<not> dir_at fs q" "fs' = AList.update q (File c) fs"
  using assms by (auto simp: write_file_def split: option.splits if_splits)

lemma entry_at_root [simp]: "entry_at fs [] = Some Dir"
  by (simp add: entry_at_def)

lemma dir_at_root [simp]: "dir_at fs []"
  by (simp add: dir_at_def)

lemma entry_at_update:
  "entry_at (AList.update q v fs) x = (if x = [] then Some Dir else if x = q then Some v else entry_at fs x)"
  by (simp add: entry_at_def update_conv')


lemma dir_at_update_file:
  "\<not> dir_at fs q \<Longrightarrow> dir_at (AList.update q (File c) fs) x = dir_at fs x"
  by (auto simp: dir_at_def entry_at_update)

lemma write_file_resolve:
  assumes "write_file fs p c = Inr fs'"
  shows "resolve fs' x = resolve fs x"
proof -
  from assms obtain q where q: "\<not> dir_at fs q" "fs' = AList.update q (File c) fs"
    by (rule write_file_InrD)
  show ?thesis unfolding q(2) by (rule resolve_dirs) (rule dir_at_update_file[OF q(1)])
qed

lemma write_file_stat:
  assumes "write_file fs p c = Inr fs'"
  shows "stat fs' x = (if resolve fs x = resolve fs p then Some (File c) else stat fs x)"
proof -
  from assms obtain q where q: "resolve fs p = Some q" "\<not> dir_at fs q"
    "fs' = AList.update q (File c) fs"
    by (rule write_file_InrD)
  have "q \<noteq> []" using q(2) by auto
  then show ?thesis
    using q write_file_resolve[OF assms, of x]
    by (auto simp: stat_def entry_at_update split: option.splits)
qed

lemma write_file_exists_self:
  "write_file fs p c = Inr fs' \<Longrightarrow> path_exists fs' p"
  by (simp add: path_exists_def write_file_stat)

lemma write_file_exists_mono:
  "write_file fs p c = Inr fs' \<Longrightarrow> path_exists fs x \<Longrightarrow> path_exists fs' x"
  by (simp add: path_exists_def write_file_stat)

lemma add_workflow_to_config_exists_mono:
  assumes "add_workflow_to_config e n fs = (r, fs')" and "path_exists fs x"
  shows "path_exists fs' x"
proof -
  have "fs' = fs \<or> (\<exists>c. write_file fs (config_path e) c = Inr fs')"
    using assms(1) unfolding add_workflow_to_config_def Let_def
    by (simp split: sum.splits json.splits option.splits bool.splits if_splits) blast+
  then show ?thesis using assms(2) write_file_exists_mono by blast
qed

lemma add_workflow_InrD:
  assumes "add_workflow e n fs = (Inr p, fs')"
  obtains fs1 c r where "write_file fs (workflow_path e n) c = Inr fs1"
    and "add_workflow_to_config e (safe_name n) fs1 = (r, fs')"
proof -
  have ne: "\<not> path_exists fs (workflow_path e n)"
    using assms by (auto simp: add_workflow_def)
  let ?c = "Text (workflow_template e (title (replace_char CHR ''-'' CHR '' '' n)) (now_iso e))"
  obtain fs1 where w: "write_file fs (workflow_path e n) ?c = Inr fs1"
    using assms ne by (cases "write_file fs (workflow_path e n) ?c") (auto simp: add_workflow_def)
  obtain r fs2 where c: "add_workflow_to_config e (safe_name n) fs1 = (r, fs2)"
    by (cases "add_workflow_to_config e (safe_name n) fs1") auto
  have "fs2 = fs'"
    using assms ne w c by (cases r) (auto simp: add_workflow_def)
  with w c that show ?thesis by blast
qed

lemma resolve_from_append:
  "resolve_from fs cur (xs @ ys) =
     (case resolve_from fs cur xs of None \<Rightarrow> None | Some c \<Rightarrow> resolve_from fs c ys)"
  by (induction xs arbitrary: cur) auto

lemma valid_path_append [simp]: "valid_path (p @ q) \<longleftrightarrow> valid_path p \<and> valid_path q"
  by (simp add: valid_path_def)

lemma resolve_snocD:
  assumes "resolve fs (p @ [n]) = Some q"
  obtains c where "resolve fs p = Some c" "dir_at fs c"
    "q = (if n = ''..'' then butlast c else c @ [n])"
  using assms
  by (auto simp: resolve_def resolve_from_append split: if_splits option.splits)

lemma resolve_snocI:
  assumes "resolve fs p = Some c" "dir_at fs c" "valid_path [n]"
  shows "resolve fs (p @ [n]) = Some (if n = ''..'' then butlast c else c @ [n])"
  using assms
  by (auto simp: resolve_def resolve_from_append split: if_splits option.splits)

lemma valid_fixed [simp]:
  "valid_path [''.business-logic'']" "valid_path [''workflows'']"
  "valid_path [''config.json'']" "valid_path [''index.md'']"
  by (simp_all add: valid_path_def)

text \<open>Where the entries of the store lie once one of them exists.\<close>

lemma store_layout:
  assumes "path_exists fs (config_path e) \<or> path_exists fs (workflows_path e)
           \<or> path_exists fs (index_path e)"
  obtains B where "resolve fs (buslog_path e) = Some B" "dir_at fs B"
    "resolve fs (config_path e) = Some (B @ [''config.json''])"
    "resolve fs (workflows_path e) = Some (B @ [''workflows''])"
    "resolve fs (index_path e) = Some (B @ [''index.md''])"
proof -
  from assms obtain n q where "resolve fs (buslog_path e @ [n]) = Some q"
    by (auto simp: path_exists_def stat_def config_path_def workflows_path_def index_path_def
             split: option.splits)
  then obtain B where B: "resolve fs (buslog_path e) = Some B" "dir_at fs B"
    by (rule resolve_snocD)
  show ?thesis
    using B resolve_snocI[OF B] by (intro that[of B]) (simp_all add: config_path_def workflows_path_def index_path_def)
qed

lemma comprehension_filter:
  "concat (map (\<lambda>x. if P x then [f x] else []) xs) = map f (filter P xs)"
  by (induction xs) auto

lemma glob_filter:
  "glob fs d ext =
     (case resolve fs d of
        None \<Rightarrow> []
      | Some q \<Rightarrow>
          if dir_at fs q
          then map (\<lambda>x. d @ [last (fst x)])
                 (filter (\<lambda>x. fst x \<noteq> [] \<and> butlast (fst x) = q \<and> endswith (last (fst x)) ext) fs)
          else [])"
  unfolding glob_def
  by (simp add: comprehension_filter[symmetric] case_prod_unfold split: option.splits cong: map_cong)

lemma rglob_filter:
  "rglob fs d ext =
     (case resolve fs d of
        None \<Rightarrow> []
      | Some q \<Rightarrow>
          if dir_at fs q
          then map (\<lambda>x. d @ drop (length q) (fst x))
                 (filter (\<lambda>x. strict_prefix q (fst x) \<and> endswith (last (fst x)) ext) fs)
          else [])"
  unfolding rglob_def
  by (simp add: comprehension_filter[symmetric] case_prod_unfold split: option.splits cong: map_cong)

lemma filter_update_other:
  "\<not> P q \<Longrightarrow> filter (\<lambda>x. P (fst x)) (AList.update q v fs) = filter (\<lambda>x. P (fst x)) fs"
  by (induction fs) auto

lemma write_file_dir_at:
  assumes "write_file fs p c = Inr fs'"
  shows "dir_at fs' x = dir_at fs x"
proof -
  from assms obtain q where q: "\<not> dir_at fs q" "fs' = AList.update q (File c) fs"
    by (rule write_file_InrD)
  show ?thesis unfolding q(2) by (rule dir_at_update_file[OF q(1)])
qed

lemma write_file_glob:
  assumes w: "write_file fs p c = Inr fs'" and r: "resolve fs p = Some q"
    and other: "\<forall>W. resolve fs d = Some W \<longrightarrow> butlast q \<noteq> W"
  shows "glob fs' d ext = glob fs d ext"
proof (cases "resolve fs d")
  case None
  then show ?thesis by (simp add: glob_filter write_file_resolve[OF w])
next
  case (Some W)
  from w r have fs': "fs' = AList.update q (File c) fs"
    by (auto elim: write_file_InrD)
  let ?P = "\<lambda>k. k \<noteq> [] \<and> butlast k = W \<and> endswith (last k) ext"
  have "\<not> ?P q" using other Some by simp
  then have "filter (\<lambda>x. ?P (fst x)) fs' = filter (\<lambda>x. ?P (fst x)) fs"
    unfolding fs' by (rule filter_update_other)
  then show ?thesis
    by (simp add: glob_filter write_file_resolve[OF w] write_file_dir_at[OF w] Some)
qed


lemma stat_read_file: "stat fs' x = stat fs x \<Longrightarrow> read_file fs' x = read_file fs x"
  by (simp add: read_file_def)

lemma write_file_succeeds:
  assumes "resolve fs p = Some q" and "\<not> dir_at fs q"
  shows "write_file fs p c = Inr (AList.update q (File c) fs)"
  using assms by (simp add: write_file_def)

lemma glob_memberD:
  "f \<in> set (glob fs d ext) \<Longrightarrow> \<exists>W n. resolve fs d = Some W \<and> dir_at fs W \<and> f = d @ [n]"
  by (cases "resolve fs d") (auto simp: glob_filter split: if_splits)

lemma mkdir_existing_dir:
  "resolve fs p = Some q \<Longrightarrow> dir_at fs q \<Longrightarrow> mkdir_exist_ok fs p = Inr fs"
  by (simp add: mkdir_exist_ok_def dir_at_def)

lemma get_config_Json:
  "stat fs (config_path e) = Some (File (Json v)) \<Longrightarrow> get_config e fs = Inr v"
  by (simp add: get_config_def path_exists_def read_file_def)


section \<open>The scanning loops\<close>

lemma fold_snoc_map: "fold (\<lambda>x acc. acc @ [f x]) xs acc = acc @ map f xs"
  by (induction xs arbitrary: acc) auto

lemma fold_append_concat: "fold (\<lambda>x acc. acc @ f x) xs acc = acc @ concat (map f xs)"
  by (induction xs arbitrary: acc) auto

lemma search_pattern_in_files_concat:
  "search_pattern_in_files e fs pattern =
     concat (map (\<lambda>file. map (Pair file) (file_matches e fs pattern file)) (scan_files e fs))"
proof -
  have step: "(\<lambda>file matches.
             case read_text e fs file of
               Inl err \<Rightarrow> matches
             | Inr content \<Rightarrow> fold (\<lambda>m ms. ms @ [(file, m)]) (finditer pattern content) matches)
        = (\<lambda>file matches. matches @ map (Pair file) (file_matches e fs pattern file))"
    by (auto simp: fun_eq_iff file_matches_def fold_snoc_map split: sum.splits)
  show ?thesis
    unfolding search_pattern_in_files_def step by (simp add: fold_append_concat)
qed

lemma rglob_descendant:
  assumes "f \<in> set (rglob fs d ext)"
  shows "strict_prefix d f"
proof -
  from assms obtain q p where "strict_prefix q p" "f = d @ drop (length q) p"
    by (auto simp: rglob_filter split: option.splits if_splits)
  then show ?thesis by (auto simp: strict_prefix_def prefix_def)
qed

lemma scan_files_member:
  "f \<in> set (scan_files e fs) \<longleftrightarrow>
     f \<in> set (rglob fs (project_root e) []) \<and> is_file fs f \<and> \<not> is_excluded f"
  by (auto simp: scan_files_def)


section \<open>The scanner\<close>

text \<open>
  The loops that filter with \<^verbatim>\<open>_is_excluded\<close>: a file that
  \<^verbatim>\<open>_search_pattern_in_files\<close> returns lies below the scanned root, is a regular file,
  and no component of its path is one of the exclusion markers.
\<close>

lemma filtered_loops_keep_no_excluded_file:
  assumes "(f, m) \<in> set (search_pattern_in_files e fs pattern)"
  shows "set f \<inter> set excluded_patterns = {} \<and> strict_prefix (project_root e) f \<and> is_file fs f"
proof -
  from assms have f: "f \<in> set (scan_files e fs)"
    by (auto simp: search_pattern_in_files_concat)
  then have "\<not> is_excluded f" "strict_prefix (project_root e) f" "is_file fs f"
    by (auto simp: scan_files_member rglob_descendant)
  then show ?thesis using component_excluded by blast
qed

text \<open>
  Claim C3 at a tree whose only file is \<^verbatim>\<open>node_modules/run.rb\<close>. The loops that filter
  with \<^verbatim>\<open>_is_excluded\<close> keep nothing: the scan is empty, every count is 0 and the
  pattern search returns no file. The language pass of the same scanner calls
  \<^verbatim>\<open>rglob\<close> without that filter: its file list for \<^verbatim>\<open>*.rb\<close> is the file inside
  \<^verbatim>\<open>node_modules\<close>, an excluded path, and the pass reports Ruby.
\<close>

theorem language_pass_returns_excluded_file:
  "scan_files sample_env dependency_tree = []
   \<and> count_files sample_env dependency_tree
        = \<lparr> total_files = 0, source_files = 0, test_files = 0, config_files = 0 \<rparr>
   \<and> search_pattern_in_files sample_env dependency_tree [Lit ''def main(''] = []
   \<and> rglob dependency_tree (project_root sample_env) ''.rb''
        = [[''home'', ''dev'', ''shop'', ''node_modules'', ''run.rb'']]
   \<and> is_excluded [''home'', ''dev'', ''shop'', ''node_modules'', ''run.rb'']
   \<and> ''node_modules'' \<in> set excluded_patterns
   \<and> analyzer_detect_languages sample_env dependency_tree = [''Ruby'']"
  by code_simp

text \<open>
  Claim C10. Exclusion is substring containment over the text of the whole path: a path
  is excluded exactly when one of the nine markers occurs somewhere in \<^verbatim>\<open>str(path)\<close>.
  So the file \<^verbatim>\<open>/srv/app/distance.py\<close> is excluded although none of its components is a
  marker (its name contains \<^verbatim>\<open>dist\<close>), and when the path of the scanned root contains
  a marker the scan keeps no file at all.
\<close>

theorem exclusion_is_substring_containment:
  "(is_excluded p \<longleftrightarrow> (\<exists>m \<in> set excluded_patterns. sublist m (path_str p)))
   \<and> (is_excluded [''srv'', ''app'', ''distance.py'']
        \<and> set [''srv'', ''app'', ''distance.py''] \<inter> set excluded_patterns = {})
   \<and> (is_excluded (project_root e) \<longrightarrow> scan_files e fs = [])"
proof -
  have "is_excluded [''srv'', ''app'', ''distance.py'']"
    by (simp add: is_excluded_def excluded_patterns_def path_str_def)
  moreover have "set [''srv'', ''app'', ''distance.py''] \<inter> set excluded_patterns = {}"
    by (simp add: excluded_patterns_def)
  moreover have "scan_files e fs = []" if "is_excluded (project_root e)"
  proof -
    have "is_excluded f" if f: "f \<in> set (rglob fs (project_root e) [])" for f
    proof -
      from rglob_descendant[OF f] obtain r where "f = project_root e @ r"
        by (auto simp: strict_prefix_def prefix_def)
      with \<open>is_excluded (project_root e)\<close> show ?thesis by (simp add: is_excluded_append)
    qed
    then show ?thesis by (auto simp: scan_files_def filter_empty_conv)
  qed
  ultimately show ?thesis by (simp add: is_excluded_sublist)
qed

theorem exclusion_is_substring_containment_witness:
  "is_excluded (project_root rebuild_env)
   \<and> rglob rebuild_tree (project_root rebuild_env) [] = [[''home'', ''dev'', ''rebuild'', ''app.py'']]
   \<and> scan_files rebuild_env rebuild_tree = []
   \<and> (is_excluded [''srv'', ''app'', ''distance.py'']
        \<longleftrightarrow> (\<exists>m \<in> set excluded_patterns. sublist m (path_str [''srv'', ''app'', ''distance.py''])))"
proof -
  have h: "is_excluded (project_root rebuild_env)"
    by code_simp
  have r: "rglob rebuild_tree (project_root rebuild_env) [] = [[''home'', ''dev'', ''rebuild'', ''app.py'']]"
    by code_simp
  from exclusion_is_substring_containment[of "[''srv'', ''app'', ''distance.py'']" rebuild_env rebuild_tree]
    h r show ?thesis by blast
qed


section \<open>The workflow store\<close>

text \<open>
  Claim C9. On a store that is already initialized, \<^verbatim>\<open>initialize\<close> without \<^verbatim>\<open>force\<close>
  raises the already-initialized error and leaves the file system as it was, so
  \<^verbatim>\<open>config.json\<close> keeps its content byte for byte.
\<close>

theorem initialize_again_fails:
  "is_initialized e fs \<Longrightarrow> initialize e project_name False fs = (Inl AlreadyInitialized, fs)"
  by (simp add: initialize_def)

theorem initialize_again_fails_witness:
  "is_initialized sample_env sample_store
   \<and> initialize sample_env None False sample_store = (Inl AlreadyInitialized, sample_store)"
proof -
  have h: "is_initialized sample_env sample_store"
    by code_simp
  from initialize_again_fails[OF h] h show ?thesis by simp
qed

text \<open>
  Claim C8. \<^verbatim>\<open>add_workflow\<close> is not idempotent: after a call that created a document,
  a call whose name normalizes to the same identifier raises the document-already-exists
  error and leaves the file system as it was, the document and the \<^verbatim>\<open>workflows\<close>
  index of the configuration included.
\<close>

theorem add_workflow_twice:
  assumes "add_workflow e n1 fs = (Inr p, fs')" and "safe_name n2 = safe_name n1"
  shows "add_workflow e n2 fs' = (Inl (WorkflowExists (safe_name n2)), fs')"
proof -
  have wp: "workflow_path e n2 = workflow_path e n1"
    using assms(2) by (simp add: workflow_path_def)
  from assms(1) obtain fs1 c r where
    w: "write_file fs (workflow_path e n1) c = Inr fs1"
    and c: "add_workflow_to_config e (safe_name n1) fs1 = (r, fs')"
    by (rule add_workflow_InrD)
  have "path_exists fs1 (workflow_path e n1)"
    using w by (rule write_file_exists_self)
  then have "path_exists fs' (workflow_path e n1)"
    using c by (rule add_workflow_to_config_exists_mono[rotated])
  then show ?thesis
    by (simp add: add_workflow_def wp assms(2))
qed

theorem add_workflow_twice_witness:
  "add_workflow sample_env ''User Authentication'' sample_store
     = (Inr (sample_store_path @ [''workflows'', ''user-authentication.md'']), authentication_store)
   \<and> safe_name ''user authentication'' = safe_name ''User Authentication''
   \<and> add_workflow sample_env ''user authentication'' authentication_store
     = (Inl (WorkflowExists ''user-authentication''), authentication_store)"
proof -
  have h1: "add_workflow sample_env ''User Authentication'' sample_store
      = (Inr (sample_store_path @ [''workflows'', ''user-authentication.md'']), authentication_store)"
    by code_simp
  have h2: "safe_name ''user authentication'' = safe_name ''User Authentication''"
    by code_simp
  have h3: "safe_name ''user authentication'' = ''user-authentication''"
    by code_simp
  from add_workflow_twice[OF h1 h2] h1 h2 h3 show ?thesis by simp
qed

text \<open>
  Claim C4. On an initialized store that holds workflow documents, \<^verbatim>\<open>initialize\<close> with
  \<^verbatim>\<open>force\<close> succeeds and writes a configuration whose \<^verbatim>\<open>workflows\<close> array is empty,
  whatever the index held before and whatever documents are on disk; the listing of the
  documents folder is the same afterwards, and every document reads as before. The
  store has the layout that \<^verbatim>\<open>initialize\<close> gives it: \<^verbatim>\<open>config.json\<close> is a file and
  \<^verbatim>\<open>index.md\<close> is not a directory.
\<close>

theorem initialize_force_keeps_documents:
  assumes init: "is_initialized e fs"
    and docs: "glob fs (workflows_path e) ''.md'' \<noteq> []"
    and cfg: "is_file fs (config_path e)"
    and idx: "\<not> is_dir fs (index_path e)"
  shows "fst (initialize e project_name True fs) = Inr ()
    \<and> config_field e (snd (initialize e project_name True fs)) ''workflows'' = Some (JArr [])
    \<and> list_workflows e (snd (initialize e project_name True fs)) = list_workflows e fs
    \<and> (\<forall>f \<in> set (glob fs (workflows_path e) ''.md'').
          read_file (snd (initialize e project_name True fs)) f = read_file fs f)"
proof -
  from init have "path_exists fs (config_path e) \<or> path_exists fs (workflows_path e)
      \<or> path_exists fs (index_path e)"
    by (simp add: is_initialized_def)
  then obtain B where B: "resolve fs (buslog_path e) = Some B" "dir_at fs B"
    and rc: "resolve fs (config_path e) = Some (B @ [''config.json''])"
    and rw: "resolve fs (workflows_path e) = Some (B @ [''workflows''])"
    and ri: "resolve fs (index_path e) = Some (B @ [''index.md''])"
    by (rule store_layout)
  let ?W = "B @ [''workflows'']"
  have dW: "dir_at fs ?W"
    using docs rw by (auto simp: glob_filter split: if_splits)
  define name where "name = (case project_name of None \<Rightarrow> path_name (project_root e)
                     | Some n \<Rightarrow> if n = [] then path_name (project_root e) else n)"
  define config where "config = initial_config name (now_iso e) (manager_detect_languages e fs)"
  define fs3 where "fs3 = AList.update (B @ [''config.json'']) (File (Json config)) fs"
  define fs4 where "fs4 = AList.update (B @ [''index.md''])
                            (File (Text (index_template e name (now_iso e)))) fs3"
  have m1: "mkdir_exist_ok fs (buslog_path e) = Inr fs"
    using B by (rule mkdir_existing_dir)
  have m2: "mkdir_exist_ok fs (workflows_path e) = Inr fs"
    using rw dW by (rule mkdir_existing_dir)
  have "\<not> dir_at fs (B @ [''config.json''])"
    using cfg rc by (auto simp: is_file_def stat_def dir_at_def split: option.splits entry.splits)
  with rc have w3: "write_file fs (config_path e) (Json config) = Inr fs3"
    unfolding fs3_def by (rule write_file_succeeds)
  have ri3: "resolve fs3 (index_path e) = Some (B @ [''index.md''])"
    using ri write_file_resolve[OF w3] by simp
  have "\<not> dir_at fs (B @ [''index.md''])"
    using idx ri by (simp add: is_dir_def stat_def dir_at_def)
  then have "\<not> dir_at fs3 (B @ [''index.md''])"
    using write_file_dir_at[OF w3] by simp
  with ri3 have w4: "write_file fs3 (index_path e) (Text (index_template e name (now_iso e))) = Inr fs4"
    unfolding fs4_def by (rule write_file_succeeds)
  have run: "initialize e project_name True fs = (Inr (), fs4)"
    using m1 m2 w3 w4 by (simp add: initialize_def name_def config_def Let_def)
  have st_cfg: "stat fs4 (config_path e) = Some (File (Json config))"
    using write_file_stat[OF w4, of "config_path e"] write_file_stat[OF w3, of "config_path e"]
      write_file_resolve[OF w3] rc ri
    by simp
  have "config_field e fs4 ''workflows'' = Some (JArr [])"
    using get_config_Json[OF st_cfg]
    by (simp add: config_field_def config_def initial_config_def)
  moreover have gl: "glob fs4 (workflows_path e) ''.md'' = glob fs (workflows_path e) ''.md''"
  proof -
    have "glob fs3 (workflows_path e) ''.md'' = glob fs (workflows_path e) ''.md''"
      using w3 rc by (rule write_file_glob) (simp add: rw)
    moreover have "glob fs4 (workflows_path e) ''.md'' = glob fs3 (workflows_path e) ''.md''"
      using w4 ri3 by (rule write_file_glob) (simp add: write_file_resolve[OF w3] rw)
    ultimately show ?thesis by simp
  qed
  moreover have st: "stat fs4 x = stat fs x"
    if "resolve fs x \<noteq> Some (B @ [''config.json''])" "resolve fs x \<noteq> Some (B @ [''index.md''])" for x
    using that write_file_stat[OF w4, of x] write_file_stat[OF w3, of x]
      write_file_resolve[OF w3] rc ri
    by simp
  have "path_exists fs4 (workflows_path e) = path_exists fs (workflows_path e)"
    using st[of "workflows_path e"] rw by (simp add: path_exists_def)
  with gl have "list_workflows e fs4 = list_workflows e fs"
    by (simp add: list_workflows_def)
  moreover have "read_file fs4 f = read_file fs f" if "f \<in> set (glob fs (workflows_path e) ''.md'')" for f
  proof -
    from glob_memberD[OF that] obtain n where f: "f = workflows_path e @ [n]"
      by blast
    have "resolve fs f \<noteq> Some (B @ [c])" for c
    proof
      assume "resolve fs f = Some (B @ [c])"
      then obtain W' where "resolve fs (workflows_path e) = Some W'"
        "B @ [c] = (if n = ''..'' then butlast W' else W' @ [n])"
        unfolding f by (rule resolve_snocD)
      with rw show False by (auto split: if_splits)
    qed
    then have "stat fs4 f = stat fs f" by (intro st) auto
    then show ?thesis by (rule stat_read_file)
  qed
  ultimately show ?thesis using run by simp
qed

theorem initialize_force_keeps_documents_witness:
  "is_initialized sample_env checkout_store
   \<and> glob checkout_store (workflows_path sample_env) ''.md''
        = [sample_store_path @ [''workflows'', ''checkout.md'']]
   \<and> is_file checkout_store (config_path sample_env)
   \<and> \<not> is_dir checkout_store (index_path sample_env)
   \<and> config_field sample_env checkout_store ''workflows'' = Some (JArr [JStr ''checkout''])
   \<and> fst (initialize sample_env None True checkout_store) = Inr ()
   \<and> config_field sample_env (snd (initialize sample_env None True checkout_store)) ''workflows''
        = Some (JArr [])
   \<and> list_workflows sample_env (snd (initialize sample_env None True checkout_store))
        = list_workflows sample_env checkout_store
   \<and> read_file (snd (initialize sample_env None True checkout_store))
          (sample_store_path @ [''workflows'', ''checkout.md''])
        = Inr (Text ''# Checkout'')"
proof -
  have h1: "is_initialized sample_env checkout_store"
    by code_simp
  have g: "glob checkout_store (workflows_path sample_env) ''.md''
             = [sample_store_path @ [''workflows'', ''checkout.md'']]"
    by code_simp
  have h2: "glob checkout_store (workflows_path sample_env) ''.md'' \<noteq> []"
    unfolding g by simp
  have h3: "is_file checkout_store (config_path sample_env)"
    by code_simp
  have h4: "\<not> is_dir checkout_store (index_path sample_env)"
    by code_simp
  have before: "config_field sample_env checkout_store ''workflows'' = Some (JArr [JStr ''checkout''])"
    by code_simp
  have r: "read_file checkout_store (sample_store_path @ [''workflows'', ''checkout.md''])
             = Inr (Text ''# Checkout'')"
    by code_simp
  from initialize_force_keeps_documents[OF h1 h2 h3 h4, of None] h1 g h3 h4 before r
  show ?thesis by simp
qed


section \<open>Entry points\<close>

lemma find_entry_points_concat:
  "find_entry_points e fs =
     concat (map (\<lambda>g. concat (map (\<lambda>pattern.
         map (\<lambda>x. \<lparr> ep_type = fst g, ep_file = relative_str (project_root e) (fst x), ep_match = snd x \<rparr>)
             (search_pattern_in_files e fs pattern)) (snd g))) entry_point_patterns)"
proof -
  have inner: "(\<lambda>(file, m) entry_points. entry_points @
                 [\<lparr> ep_type = k, ep_file = relative_str (project_root e) file, ep_match = m \<rparr>])
      = (\<lambda>x entry_points. entry_points @
                 [\<lparr> ep_type = k, ep_file = relative_str (project_root e) (fst x), ep_match = snd x \<rparr>])" for k
    by (auto simp: fun_eq_iff)
  have group: "(\<lambda>(entry_type, pattern_list) entry_points.
             fold (\<lambda>pattern entry_points.
                     fold (\<lambda>(file, m) entry_points.
                             entry_points @
                               [\<lparr> ep_type = entry_type,
                                  ep_file = relative_str (project_root e) file,
                                  ep_match = m \<rparr>])
                          (search_pattern_in_files e fs pattern) entry_points)
                  pattern_list entry_points)
     = (\<lambda>g entry_points. entry_points @ concat (map (\<lambda>pattern.
         map (\<lambda>x. \<lparr> ep_type = fst g, ep_file = relative_str (project_root e) (fst x), ep_match = snd x \<rparr>)
             (search_pattern_in_files e fs pattern)) (snd g)))"
    by (simp add: fun_eq_iff inner fold_snoc_map fold_append_concat case_prod_unfold)
  show ?thesis
    unfolding find_entry_points_def group by (simp add: fold_append_concat)
qed

lemma length_filter_concat:
  "length (filter P (concat xss)) = sum_list (map (\<lambda>xs. length (filter P xs)) xss)"
  by (induction xss) auto

lemma length_filter_const:
  "length (filter (\<lambda>x. Q) xs) = (if Q then length xs else 0)"
  by simp

lemma sum_list_map_concat:
  "sum_list (map f (concat xss)) = sum_list (map (\<lambda>xs. sum_list (map f xs)) xss)"
  by (induction xss) auto

lemma sum_list_filter_zero:
  "sum_list (map (\<lambda>x. if P x then f x else (0::nat)) xs) = sum_list (map f (filter P xs))"
  by (induction xs) auto

text \<open>
  Claim C1, as the code has it. Enumeration keeps one record for every match: the
  records of a pattern group in a file are as many as the matches of the group's
  patterns in that file, whenever the file is scanned and can be read; nothing is
  discarded. For the two files of the scenario, one with the pattern twice and one with
  it once, the list has 3 records.
\<close>

theorem entry_points_one_per_match:
  "length (filter (\<lambda>r. ep_type r = kind \<and> ep_file r = name) (find_entry_points e fs))
     = sum_list (map (\<lambda>pattern.
         sum_list (map (\<lambda>file. length (file_matches e fs pattern file))
                    (filter (\<lambda>file. relative_str (project_root e) file = name) (scan_files e fs))))
         (concat (map snd (filter (\<lambda>g. fst g = kind) entry_point_patterns))))
   \<and> length (find_entry_points sample_env two_file_tree) = 3"
proof -
  define P where "P = (\<lambda>r::entry_point. ep_type r = kind \<and> ep_file r = name)"
  define records where "records = (\<lambda>k pattern.
      map (\<lambda>x. \<lparr> ep_type = k, ep_file = relative_str (project_root e) (fst x), ep_match = snd x \<rparr>)
          (search_pattern_in_files e fs pattern))"
  define n where "n = (\<lambda>pattern.
      sum_list (map (\<lambda>file. length (file_matches e fs pattern file))
                 (filter (\<lambda>file. relative_str (project_root e) file = name) (scan_files e fs))))"
  have per_pattern: "length (filter P (records k pattern)) = (if k = kind then n pattern else 0)"
    for k pattern
    unfolding P_def records_def n_def
    by (simp add: search_pattern_in_files_concat filter_map length_filter_concat comp_def
          sum_list_filter_zero[symmetric] length_filter_const cong: map_cong)
  have whole: "find_entry_points e fs
      = concat (map (\<lambda>g. concat (map (records (fst g)) (snd g))) entry_point_patterns)"
    unfolding find_entry_points_concat records_def ..
  have "length (filter P (find_entry_points e fs))
      = sum_list (map (\<lambda>g. if fst g = kind then sum_list (map n (snd g)) else 0) entry_point_patterns)"
    unfolding whole length_filter_concat map_map comp_def per_pattern
    by (rule arg_cong[where f = sum_list], rule map_cong) auto
  also have "\<dots> = sum_list (map (\<lambda>g. sum_list (map n (snd g))) (filter (\<lambda>g. fst g = kind) entry_point_patterns))"
    by (rule sum_list_filter_zero)
  also have "\<dots> = sum_list (map n (concat (map snd (filter (\<lambda>g. fst g = kind) entry_point_patterns))))"
    by (simp add: sum_list_map_concat comp_def)
  finally have general: "length (filter P (find_entry_points e fs))
      = sum_list (map n (concat (map snd (filter (\<lambda>g. fst g = kind) entry_point_patterns))))" .
  have "length (find_entry_points sample_env two_file_tree) = 3"
    by code_simp
  with general show ?thesis unfolding P_def n_def by simp
qed

text \<open>
  Claim C1 as stated fails: the file with two matches gives two records of the same
  pattern group, and the list has 3 records, not 2.
\<close>

theorem entry_points_not_deduplicated:
  "find_entry_points sample_env two_file_tree =
     [\<lparr> ep_type = ''CLI Command'', ep_file = ''cli.py'', ep_match = ''def main('' \<rparr>,
      \<lparr> ep_type = ''CLI Command'', ep_file = ''cli.py'', ep_match = ''def main('' \<rparr>,
      \<lparr> ep_type = ''CLI Command'', ep_file = ''tool.py'', ep_match = ''def main('' \<rparr>]"
  by code_simp


section \<open>Listing and adding workflows\<close>

lemma glob_not_exists: "\<not> path_exists fs d \<Longrightarrow> glob fs d ext = []"
  by (auto simp: glob_filter path_exists_def stat_def dir_at_def split: option.splits)

lemma list_workflows_sort:
  "list_workflows e fs = sort_key wf_name (map workflow_info_of (glob fs (workflows_path e) ''.md''))"
  by (simp add: list_workflows_def glob_not_exists)

lemma write_config_list_workflows:
  assumes w: "write_file fs (config_path e) c = Inr fs'"
  shows "list_workflows e fs' = list_workflows e fs"
proof -
  from w obtain q where q: "resolve fs (config_path e) = Some q"
    by (rule write_file_InrD)
  then obtain B where B: "resolve fs (buslog_path e) = Some B" "dir_at fs B"
    and qB: "q = B @ [''config.json'']"
    unfolding config_path_def by (rule resolve_snocD) simp
  have rw: "resolve fs (workflows_path e) = Some (B @ [''workflows''])"
    using resolve_snocI[OF B, of "''workflows''"] by (simp add: workflows_path_def)
  have "glob fs' (workflows_path e) ''.md'' = glob fs (workflows_path e) ''.md''"
    using w q by (rule write_file_glob) (simp add: rw qB)
  then show ?thesis by (simp add: list_workflows_sort)
qed

text \<open>
  Claim C5, as the code has it. \<^verbatim>\<open>list_workflows\<close> builds its records from the
  \<^verbatim>\<open>*.md\<close> entries of the documents folder, one record for each entry, and rewriting
  \<^verbatim>\<open>config.json\<close> with any content does not change the listing. The records come
  sorted by display title in ascending order of the character codes, which is a
  case-sensitive comparison.
\<close>

theorem list_workflows_sorted_by_code_point:
  "sorted (map wf_name (list_workflows e fs))
   \<and> mset (list_workflows e fs) = mset (map workflow_info_of (glob fs (workflows_path e) ''.md''))
   \<and> (\<forall>c fs'. write_file fs (config_path e) c = Inr fs' \<longrightarrow> list_workflows e fs' = list_workflows e fs)"
  using write_config_list_workflows by (simp add: list_workflows_sort sorted_sort_key)

theorem list_workflows_sorted_by_code_point_witness:
  "write_file four_document_store (config_path sample_env) (Json (JObj [])) =
     Inr (AList.update (sample_store_path @ [''config.json'']) (File (Json (JObj []))) four_document_store)
   \<and> map wf_file (list_workflows sample_env
          (AList.update (sample_store_path @ [''config.json'']) (File (Json (JObj []))) four_document_store))
       = [''api.md'', ''user_auth.md'', ''users.md'', ''_draft.md'']
   \<and> map wf_file (list_workflows sample_env four_document_store)
       = [''api.md'', ''user_auth.md'', ''users.md'', ''_draft.md'']
   \<and> sorted (map wf_name (list_workflows sample_env four_document_store))"
proof -
  have h: "write_file four_document_store (config_path sample_env) (Json (JObj [])) =
     Inr (AList.update (sample_store_path @ [''config.json'']) (File (Json (JObj []))) four_document_store)"
    by code_simp
  have l: "map wf_file (list_workflows sample_env four_document_store)
       = [''api.md'', ''user_auth.md'', ''users.md'', ''_draft.md'']"
    by code_simp
  from list_workflows_sorted_by_code_point[of sample_env four_document_store] h l
  show ?thesis by simp
qed

text \<open>
  Claim C5 as stated fails: for the documents \<^verbatim>\<open>_draft.md\<close>, \<^verbatim>\<open>api.md\<close>,
  \<^verbatim>\<open>user_auth.md\<close> and \<^verbatim>\<open>users.md\<close> the titles come in the order Api, User_Auth, Users,
  _Draft. A case-insensitive order puts _Draft before Api when titles are folded to
  lower case, and Users before User_Auth when they are folded to upper case.
\<close>

theorem list_workflows_not_case_insensitive:
  "map wf_name (list_workflows sample_env four_document_store)
      = [''Api'', ''User_Auth'', ''Users'', ''_Draft'']
   \<and> \<not> sorted_ignoring_case (map wf_name (list_workflows sample_env four_document_store))
   \<and> \<not> sorted_ignoring_case_upper (map wf_name (list_workflows sample_env four_document_store))"
  by code_simp

text \<open>
  Claim C6 at the name \<^verbatim>\<open>../checkout\<close>: on the freshly initialized sample store
  \<^verbatim>\<open>add_workflow\<close> succeeds, the document is written to
  \<^verbatim>\<open>.business-logic/checkout.md\<close>, outside the documents folder, the identifier
  \<^verbatim>\<open>../checkout\<close> is appended to the \<^verbatim>\<open>workflows\<close> array, and \<^verbatim>\<open>list_workflows\<close>
  reports no file at all.
\<close>

theorem add_workflow_outside_documents_folder:
  "is_initialized sample_env sample_store
   \<and> fst (add_workflow sample_env ''../checkout'' sample_store)
        = Inr (sample_store_path @ [''workflows'', ''..'', ''checkout.md''])
   \<and> list_workflows sample_env (snd (add_workflow sample_env ''../checkout'' sample_store)) = []
   \<and> config_field sample_env (snd (add_workflow sample_env ''../checkout'' sample_store)) ''workflows''
        = Some (JArr [JStr ''../checkout''])
   \<and> read_file (snd (add_workflow sample_env ''../checkout'' sample_store))
          (sample_store_path @ [''checkout.md''])
        = Inr (Text ''# ../Checkout'')"
  by code_simp


section \<open>Language detection at initialization\<close>

lemma initialize_InrD:
  assumes "initialize e project_name force fs = (Inr u, fs')"
  obtains fs1 fs2 fs3 name where
    "mkdir_exist_ok fs (buslog_path e) = Inr fs1"
    "mkdir_exist_ok fs1 (workflows_path e) = Inr fs2"
    "write_file fs2 (config_path e)
       (Json (initial_config name (now_iso e) (manager_detect_languages e fs2))) = Inr fs3"
    "write_file fs3 (index_path e) (Text (index_template e name (now_iso e))) = Inr fs'"
proof -
  have ni: "\<not> (is_initialized e fs \<and> \<not> force)"
    using assms by (auto simp: initialize_def split: if_splits)
  obtain fs1 where m1: "mkdir_exist_ok fs (buslog_path e) = Inr fs1"
    using assms ni by (cases "mkdir_exist_ok fs (buslog_path e)") (auto simp: initialize_def)
  obtain fs2 where m2: "mkdir_exist_ok fs1 (workflows_path e) = Inr fs2"
    using assms ni m1 by (cases "mkdir_exist_ok fs1 (workflows_path e)") (auto simp: initialize_def)
  define name where "name = (case project_name of None \<Rightarrow> path_name (project_root e)
                     | Some n \<Rightarrow> if n = [] then path_name (project_root e) else n)"
  let ?cfg = "Json (initial_config name (now_iso e) (manager_detect_languages e fs2))"
  obtain fs3 where w3: "write_file fs2 (config_path e) ?cfg = Inr fs3"
    using assms ni m1 m2
    by (cases "write_file fs2 (config_path e) ?cfg") (auto simp: initialize_def Let_def name_def)
  let ?idx = "Text (index_template e name (now_iso e))"
  have w4: "write_file fs3 (index_path e) ?idx = Inr fs'"
    using assms ni m1 m2 w3
    by (cases "write_file fs3 (index_path e) ?idx") (auto simp: initialize_def Let_def name_def)
  from m1 m2 w3 w4 show ?thesis by (rule that)
qed

lemma resolve_from_more_dirs:
  assumes "\<And>x. dir_at fs x \<Longrightarrow> dir_at fs2 x"
  shows "resolve_from fs cur cs = Some r \<Longrightarrow> resolve_from fs2 cur cs = Some r"
proof (induction cs arbitrary: cur)
  case Nil
  then show ?case by simp
next
  case (Cons c cs)
  then show ?case using assms by (auto split: if_splits)
qed

lemma resolve_more_dirs:
  assumes "\<And>x. dir_at fs x \<Longrightarrow> dir_at fs2 x" and "resolve fs p = Some r"
  shows "resolve fs2 p = Some r"
  using assms(2) resolve_from_more_dirs[of fs fs2, OF assms(1)]
  by (auto simp: resolve_def split: if_splits)

lemma entry_at_extend:
  "entry_at fs q = None \<Longrightarrow> entry_at (fs @ [(q, v)]) x = (if x = q then Some v else entry_at fs x)"
  by (auto simp: entry_at_def map_add_def split: option.splits if_splits)

lemma mkdir_InrD:
  assumes "mkdir_exist_ok fs p = Inr fs2"
  shows "fs2 = fs \<or> (\<exists>q. resolve fs p = Some q \<and> entry_at fs q = None \<and> fs2 = fs @ [(q, Dir)])"
  using assms
  by (auto simp: mkdir_exist_ok_def split: option.splits entry.splits)

lemma mkdir_resolves:
  "mkdir_exist_ok fs p = Inr fs2 \<Longrightarrow> \<exists>q. resolve fs p = Some q"
  by (auto simp: mkdir_exist_ok_def split: option.splits)

lemma rglob_extend:
  assumes r: "resolve fs d = Some r" and d: "dir_at fs r"
    and q: "entry_at fs q = None" and n: "\<not> endswith (last q) ext"
  shows "rglob (fs @ [(q, Dir)]) d ext = rglob fs d ext"
proof -
  have more: "dir_at fs x \<Longrightarrow> dir_at (fs @ [(q, Dir)]) x" for x
    using q by (auto simp: dir_at_def entry_at_extend)
  have "resolve (fs @ [(q, Dir)]) d = Some r"
    using more r by (rule resolve_more_dirs)
  moreover have "dir_at (fs @ [(q, Dir)]) r"
    using d by (rule more)
  ultimately show ?thesis using r d n by (simp add: rglob_filter)
qed

lemma rglob_mkdir:
  assumes m: "mkdir_exist_ok fs (p @ [n]) = Inr fs2" and "n \<noteq> ''..''"
    and r: "resolve fs d = Some r" and d: "dir_at fs r" and e: "\<not> endswith n ext"
  shows "rglob fs2 d ext = rglob fs d ext"
proof -
  from mkdir_InrD[OF m] show ?thesis
  proof
    assume "fs2 = fs"
    then show ?thesis by simp
  next
    assume "\<exists>q. resolve fs (p @ [n]) = Some q \<and> entry_at fs q = None \<and> fs2 = fs @ [(q, Dir)]"
    then obtain q where q: "resolve fs (p @ [n]) = Some q" "entry_at fs q = None"
      "fs2 = fs @ [(q, Dir)]"
      by blast
    from q(1) have "last q = n"
      using \<open>n \<noteq> ''..''\<close> by (auto elim!: resolve_snocD)
    with e have "\<not> endswith (last q) ext" by simp
    with r d q(2) show ?thesis unfolding q(3) by (rule rglob_extend)
  qed
qed


lemma mkdir_dir_at_mono:
  "mkdir_exist_ok fs p = Inr fs2 \<Longrightarrow> dir_at fs x \<Longrightarrow> dir_at fs2 x"
  by (drule mkdir_InrD) (auto simp: dir_at_def entry_at_extend)

lemma mkdir_resolve_mono:
  assumes "mkdir_exist_ok fs p = Inr fs2" and "resolve fs x = Some r"
  shows "resolve fs2 x = Some r"
  using mkdir_dir_at_mono[OF assms(1)] assms(2) by (rule resolve_more_dirs)

text \<open>The labels found depend on the tree only through the names that match an extension.\<close>

lemma manager_detected_cong:
  assumes "\<And>ext. ext \<in> set (map fst manager_language_extensions)
             \<Longrightarrow> rglob fs2 (project_root e) ext = rglob fs (project_root e) ext"
  shows "manager_detected e fs2 = manager_detected e fs"
  unfolding manager_detected_def
proof (rule fold_cong)
  fix x assume "x \<in> set manager_language_extensions"
  then have "fst x \<in> set (map fst manager_language_extensions)" by simp
  then have "rglob fs2 (project_root e) (fst x) = rglob fs (project_root e) (fst x)"
    by (rule assms)
  then show "(case x of (ext, lang) \<Rightarrow> \<lambda>detected.
               if rglob fs2 (project_root e) ext \<noteq> [] then List.insert lang detected else detected)
           = (case x of (ext, lang) \<Rightarrow> \<lambda>detected.
               if rglob fs (project_root e) ext \<noteq> [] then List.insert lang detected else detected)"
    by (simp add: case_prod_unfold)
qed simp_all

lemma manager_fold_set:
  "set (fold (\<lambda>(ext, lang) detected.
               if rglob fs root ext \<noteq> [] then List.insert lang detected else detected) table acc)
     = set acc \<union> {lang. \<exists>ext. (ext, lang) \<in> set table \<and> rglob fs root ext \<noteq> []}"
  by (induction table arbitrary: acc) (auto split: if_splits)

lemma manager_fold_distinct:
  "distinct acc \<Longrightarrow>
   distinct (fold (\<lambda>(ext, lang) detected.
               if rglob fs root ext \<noteq> [] then List.insert lang detected else detected) table acc)"
  by (induction table arbitrary: acc) (auto split: if_splits)

lemma fold_collect:
  assumes "\<And>x acc. K (f x acc) = K acc \<union> g x"
  shows "K (fold f xs acc) = K acc \<union> (\<Union>x \<in> set xs. g x)"
proof (induction xs arbitrary: acc)
  case Nil
  show ?case by simp
next
  case (Cons x xs)
  have "K (fold f (x # xs) acc) = K (f x acc) \<union> (\<Union>x \<in> set xs. g x)"
    using Cons.IH[of "f x acc"] by simp
  also have "\<dots> = K acc \<union> (\<Union>x \<in> set (x # xs). g x)"
    unfolding assms by auto
  finally show ?case .
qed

lemma analyzer_detected_keys:
  "fst ` set (analyzer_detected e fs)
     = {lang. \<exists>ext. (ext, lang) \<in> set analyzer_language_extensions
                \<and> rglob fs (project_root e) ext \<noteq> []}"
proof -
  let ?g = "\<lambda>x. if rglob fs (project_root e) (fst x) \<noteq> [] then {snd x} else {}"
  define f :: "string \<times> string \<Rightarrow> (string \<times> nat) list \<Rightarrow> (string \<times> nat) list"
    where "f = (\<lambda>(ext, lang) detected.
             let files = rglob fs (project_root e) ext
             in if files \<noteq> [] then AList.update lang (length files) detected else detected)"
  define K where "K = (\<lambda>a :: (string \<times> nat) list. fst ` set a)"
  have step: "K (f x acc) = K acc \<union> ?g x" for x acc
    unfolding f_def K_def by (simp add: case_prod_unfold Let_def dom_update)
  have "K (fold f analyzer_language_extensions [])
      = K [] \<union> (\<Union>x \<in> set analyzer_language_extensions. ?g x)"
    using step by (rule fold_collect)
  then have "fst ` set (analyzer_detected e fs)
      = (\<Union>x \<in> set analyzer_language_extensions. ?g x)"
    unfolding analyzer_detected_def f_def K_def by simp
  also have "\<dots> = {lang. \<exists>ext. (ext, lang) \<in> set analyzer_language_extensions
                \<and> rglob fs (project_root e) ext \<noteq> []}"
  proof (intro set_eqI iffI)
    fix lang
    assume "lang \<in> (\<Union>x \<in> set analyzer_language_extensions. ?g x)"
    then obtain x where "x \<in> set analyzer_language_extensions" "lang \<in> ?g x"
      by auto
    then have "(fst x, lang) \<in> set analyzer_language_extensions"
      "rglob fs (project_root e) (fst x) \<noteq> []"
      by (cases x; simp split: if_splits)+
    then show "lang \<in> {lang. \<exists>ext. (ext, lang) \<in> set analyzer_language_extensions
                \<and> rglob fs (project_root e) ext \<noteq> []}"
      by blast
  next
    fix lang
    assume "lang \<in> {lang. \<exists>ext. (ext, lang) \<in> set analyzer_language_extensions
                \<and> rglob fs (project_root e) ext \<noteq> []}"
    then obtain ext where x: "(ext, lang) \<in> set analyzer_language_extensions"
      "rglob fs (project_root e) ext \<noteq> []"
      by blast
    then have "lang \<in> ?g (ext, lang)" by simp
    with x(1) show "lang \<in> (\<Union>x \<in> set analyzer_language_extensions. ?g x)"
      by blast
  qed
  finally show ?thesis .
qed

lemma manager_detected_set:
  "set (manager_detected e fs)
     = {lang. \<exists>ext. (ext, lang) \<in> set manager_language_extensions
                \<and> rglob fs (project_root e) ext \<noteq> []}"
  by (simp add: manager_detected_def manager_fold_set)

lemma analyzer_detect_languages_set:
  "set (analyzer_detect_languages e fs)
     = {lang. \<exists>ext. (ext, lang) \<in> set analyzer_language_extensions
                \<and> rglob fs (project_root e) ext \<noteq> []}"
  by (simp add: analyzer_detect_languages_def analyzer_detected_keys)

lemma manager_table_in_analyzer_table:
  "(ext, lang) \<in> set manager_language_extensions \<longleftrightarrow>
     (ext, lang) \<in> set analyzer_language_extensions
     \<and> lang \<notin> {''React'', ''React/TypeScript'', ''Swift'', ''Kotlin''}"
  by (auto simp: manager_language_extensions_def analyzer_language_extensions_def)

lemma manager_languages_of_analyzer:
  "set (manager_detect_languages e fs)
     = set (analyzer_detect_languages e fs) - {''React'', ''React/TypeScript'', ''Swift'', ''Kotlin''}"
proof -
  have "set (manager_detect_languages e fs)
     = {lang. \<exists>ext. (ext, lang) \<in> set manager_language_extensions
                \<and> rglob fs (project_root e) ext \<noteq> []}"
    by (simp add: manager_detect_languages_def manager_detected_set)
  also have "\<dots> = {lang. \<exists>ext. (ext, lang) \<in> set analyzer_language_extensions
                \<and> rglob fs (project_root e) ext \<noteq> []}
               - {''React'', ''React/TypeScript'', ''Swift'', ''Kotlin''}"
    unfolding manager_table_in_analyzer_table by blast
  finally show ?thesis by (simp only: analyzer_detect_languages_set)
qed

lemma manager_languages_sorted:
  "sorted (manager_detect_languages e fs) \<and> distinct (manager_detect_languages e fs)"
  by (simp add: manager_detect_languages_def manager_detected_def manager_fold_distinct)

lemma store_names_match_no_extension:
  assumes "ext \<in> set (map fst manager_language_extensions)"
  shows "\<not> endswith ''.business-logic'' ext" "\<not> endswith ''workflows'' ext"
    "\<not> endswith ''config.json'' ext" "\<not> endswith ''index.md'' ext"
  using assms by (auto simp: manager_language_extensions_def endswith_def)

lemma initialize_detects_on_given_tree:
  assumes m1: "mkdir_exist_ok fs (buslog_path e) = Inr fs1"
    and m2: "mkdir_exist_ok fs1 (workflows_path e) = Inr fs2"
  shows "manager_detect_languages e fs2 = manager_detect_languages e fs"
proof -
  from mkdir_resolves[OF m1] obtain q where "resolve fs (project_root e @ [''.business-logic'']) = Some q"
    by (auto simp: buslog_path_def)
  then obtain r where r: "resolve fs (project_root e) = Some r" "dir_at fs r"
    by (rule resolve_snocD)
  have r1: "resolve fs1 (project_root e) = Some r" "dir_at fs1 r"
    using mkdir_resolve_mono[OF m1 r(1)] mkdir_dir_at_mono[OF m1 r(2)] by simp_all
  have "rglob fs2 (project_root e) ext = rglob fs (project_root e) ext"
    if ext: "ext \<in> set (map fst manager_language_extensions)" for ext
  proof -
    have "rglob fs1 (project_root e) ext = rglob fs (project_root e) ext"
      using m1[unfolded buslog_path_def] _ r store_names_match_no_extension(1)[OF ext]
      by (rule rglob_mkdir) simp
    moreover have "rglob fs2 (project_root e) ext = rglob fs1 (project_root e) ext"
      using m2[unfolded workflows_path_def] _ r1 store_names_match_no_extension(2)[OF ext]
      by (rule rglob_mkdir) simp
    ultimately show ?thesis by simp
  qed
  then have "manager_detected e fs2 = manager_detected e fs"
    by (rule manager_detected_cong)
  then show ?thesis by (simp add: manager_detect_languages_def)
qed

text \<open>
  Claim C2, as the code has it. The \<^verbatim>\<open>languages\<close> array that a successful
  \<^verbatim>\<open>initialize\<close> writes is the result of the manager's own detection pass over the
  tree it was given: the labels of the scanner's list over the same tree, without the
  four labels that the manager's table lacks (React, React/TypeScript, Swift, Kotlin),
  each once and in ascending alphabetical order rather than ranked by file count.
\<close>

theorem initialize_languages:
  assumes "initialize e project_name force fs = (Inr (), fs')"
  shows "config_field e fs' ''languages'' = Some (JArr (map JStr (manager_detect_languages e fs)))
    \<and> sorted (manager_detect_languages e fs)
    \<and> distinct (manager_detect_languages e fs)
    \<and> set (manager_detect_languages e fs)
        = set (analyzer_detect_languages e fs) - {''React'', ''React/TypeScript'', ''Swift'', ''Kotlin''}"
proof -
  from assms obtain fs1 fs2 fs3 name where
    m1: "mkdir_exist_ok fs (buslog_path e) = Inr fs1"
    and m2: "mkdir_exist_ok fs1 (workflows_path e) = Inr fs2"
    and w3: "write_file fs2 (config_path e)
       (Json (initial_config name (now_iso e) (manager_detect_languages e fs2))) = Inr fs3"
    and w4: "write_file fs3 (index_path e) (Text (index_template e name (now_iso e))) = Inr fs'"
    by (rule initialize_InrD)
  have langs: "manager_detect_languages e fs2 = manager_detect_languages e fs"
    using m1 m2 by (rule initialize_detects_on_given_tree)
  from w3 obtain qc where qc: "resolve fs2 (config_path e) = Some qc"
    by (rule write_file_InrD)
  then have "path_exists fs3 (config_path e)"
    using write_file_exists_self[OF w3] by simp
  then obtain B where rc: "resolve fs3 (config_path e) = Some (B @ [''config.json''])"
    and ri: "resolve fs3 (index_path e) = Some (B @ [''index.md''])"
    using store_layout[of fs3 e] by blast
  have "stat fs3 (config_path e)
      = Some (File (Json (initial_config name (now_iso e) (manager_detect_languages e fs2))))"
    using write_file_stat[OF w3, of "config_path e"] by simp
  then have "stat fs' (config_path e)
      = Some (File (Json (initial_config name (now_iso e) (manager_detect_languages e fs2))))"
    using write_file_stat[OF w4, of "config_path e"] rc ri by simp
  then have "config_field e fs' ''languages''
      = Some (JArr (map JStr (manager_detect_languages e fs2)))"
    by (simp add: config_field_def get_config_Json initial_config_def)
  then show ?thesis
    using langs manager_languages_sorted manager_languages_of_analyzer by simp
qed

theorem initialize_languages_witness:
  "initialize sample_env None False sample_tree = (Inr (), sample_store)
   \<and> config_field sample_env sample_store ''languages''
        = Some (JArr [JStr ''JavaScript'', JStr ''Python''])
   \<and> sorted [''JavaScript'', ''Python'']
   \<and> set [''JavaScript'', ''Python'']
        = set (analyzer_detect_languages sample_env sample_tree)
            - {''React'', ''React/TypeScript'', ''Swift'', ''Kotlin''}"
proof -
  have h: "initialize sample_env None False sample_tree = (Inr (), sample_store)"
    by code_simp
  have l: "manager_detect_languages sample_env sample_tree = [''JavaScript'', ''Python'']"
    by code_simp
  from initialize_languages[OF h, unfolded l] h show ?thesis by simp
qed

text \<open>
  Claim C2 as stated fails: in the sample tree, with two Python files and one JavaScript
  file, \<^verbatim>\<open>initialize\<close> writes JavaScript before Python, and the scanner ranks Python
  before JavaScript, on the tree before and after the call.
\<close>

theorem initialize_languages_differ_from_scanner:
  "fst (initialize sample_env None False sample_tree) = Inr ()
   \<and> config_field sample_env (snd (initialize sample_env None False sample_tree)) ''languages''
        = Some (JArr [JStr ''JavaScript'', JStr ''Python''])
   \<and> analyzer_detect_languages sample_env sample_tree = [''Python'', ''JavaScript'']
   \<and> analyzer_detect_languages sample_env (snd (initialize sample_env None False sample_tree))
        = [''Python'', ''JavaScript'']"
  by code_simp


section \<open>The scenario of three files\<close>

lemma map_of_filter_key:
  "P k \<Longrightarrow> map_of (filter (\<lambda>x. P (fst x)) xs) k = map_of xs k"
  by (induction xs) auto

lemma map_of_mset_eq:
  assumes "mset xs = mset ys" and "distinct (map fst ys)"
  shows "map_of xs k = map_of ys k"
proof -
  have "mset (map fst xs) = mset (map fst ys)"
    using assms(1) by simp
  then have "distinct (map fst xs) = distinct (map fst ys)"
    by (rule mset_eq_imp_distinct_iff)
  then have dx: "distinct (map fst xs)"
    using assms(2) by simp
  have s: "set xs = set ys"
    using assms(1) by (rule mset_eq_setD)
  have iff: "map_of xs k = Some v \<longleftrightarrow> map_of ys k = Some v" for v
    unfolding map_of_eq_Some_iff[OF dx] map_of_eq_Some_iff[OF assms(2)] s ..
  show ?thesis
  proof (cases "map_of xs k")
    case None
    show ?thesis
    proof (cases "map_of ys k")
      case (Some w)
      with iff[of w] None show ?thesis by simp
    qed (simp add: None)
  next
    case (Some v)
    with iff[of v] show ?thesis by simp
  qed
qed

lemma filter_conj: "filter (\<lambda>x. P x \<and> Q x) xs = filter Q (filter P xs)"
  by (induction xs) auto

lemma scenario_files_names:
  "map (\<lambda>x. drop (length q) (fst x)) (scenario_files q) = scenario_names"
  "distinct (map fst (scenario_files q))"
  by (simp_all add: scenario_files_def scenario_names_def)

lemma scenario_files_last:
  "x \<in> set (scenario_files q) \<Longrightarrow> last (fst x) = last (drop (length q) (fst x))"
  by (auto simp: scenario_files_def)

text \<open>What the scenario gives: the root resolves, and the entries below it are the four of the scenario.\<close>

lemma scenario_rglob:
  assumes r: "resolve fs root = Some q" and d: "dir_at fs q"
    and tree: "mset (filter (\<lambda>x. strict_prefix q (fst x)) fs) = mset (scenario_files q)"
  shows "mset (rglob fs root ext)
     = mset (map ((@) root) (filter (\<lambda>n. endswith (last n) ext) scenario_names))"
proof -
  let ?B = "filter (\<lambda>x. strict_prefix q (fst x)) fs"
  let ?E = "\<lambda>x::path \<times> entry. endswith (last (fst x)) ext"
  let ?g = "\<lambda>x::path \<times> entry. root @ drop (length q) (fst x)"
  have split: "filter (\<lambda>x. strict_prefix q (fst x) \<and> endswith (last (fst x)) ext) fs = filter ?E ?B"
    by (rule filter_conj)
  have "rglob fs root ext
      = map ?g (filter (\<lambda>x. strict_prefix q (fst x) \<and> endswith (last (fst x)) ext) fs)"
    using r d by (simp add: rglob_filter)
  then have "rglob fs root ext = map ?g (filter ?E ?B)"
    unfolding split .
  then have "mset (rglob fs root ext) = image_mset ?g (filter_mset ?E (mset ?B))"
    by (simp only: mset_map mset_filter)
  also have "\<dots> = mset (map ?g (filter ?E (scenario_files q)))"
    unfolding tree by (simp only: mset_map mset_filter)
  also have "filter ?E (scenario_files q)
      = filter (\<lambda>x. endswith (last (drop (length q) (fst x))) ext) (scenario_files q)"
    by (rule filter_cong[OF refl]) (use scenario_files_last in metis)
  also have "map ?g \<dots>
      = map ((@) root) (filter (\<lambda>n. endswith (last n) ext)
           (map (\<lambda>x. drop (length q) (fst x)) (scenario_files q)))"
    by (simp add: filter_map comp_def)
  finally show ?thesis by (simp only: scenario_files_names)
qed

lemma scenario_entry:
  assumes tree: "mset (filter (\<lambda>x. strict_prefix q (fst x)) fs) = mset (scenario_files q)"
    and n: "n \<noteq> []"
  shows "entry_at fs (q @ n) = map_of (scenario_files q) (q @ n)"
proof -
  have sp: "strict_prefix q (q @ n)" using n by (simp add: strict_prefix_def)
  have "entry_at fs (q @ n) = map_of fs (q @ n)"
    using n by (simp add: entry_at_def)
  also have "\<dots> = map_of (filter (\<lambda>x. strict_prefix q (fst x)) fs) (q @ n)"
    using map_of_filter_key[of "strict_prefix q" "q @ n" fs] sp by simp
  also have "\<dots> = map_of (scenario_files q) (q @ n)"
    using tree scenario_files_names(2) by (rule map_of_mset_eq)
  finally show ?thesis .
qed

lemma endswith_empty [simp]: "endswith s []"
  by (simp add: endswith_def)

lemma update_new_key:
  "k \<notin> fst ` set al \<Longrightarrow> AList.update k v al = al @ [(k, v)]"
  by (induction al) auto

lemma analyzer_fold_table_order:
  assumes "distinct (map snd table)" and "snd ` set table \<inter> fst ` set acc = {}"
  shows "fold (\<lambda>(ext, lang) detected.
             let files = rglob fs root ext
             in if files \<noteq> [] then AList.update lang (length files) detected else detected) table acc
     = acc @ map (\<lambda>x. (snd x, length (rglob fs root (fst x))))
               (filter (\<lambda>x. rglob fs root (fst x) \<noteq> []) table)"
  using assms
proof (induction table arbitrary: acc)
  case Nil
  show ?case by simp
next
  case (Cons x table)
  obtain ext lang where x: "x = (ext, lang)" by (cases x)
  have new: "lang \<notin> fst ` set acc"
    using Cons.prems(2) unfolding x by auto
  have d: "distinct (map snd table)" and nl: "lang \<notin> snd ` set table"
    using Cons.prems(1) unfolding x by auto
  show ?case
  proof (cases "rglob fs root ext = []")
    case True
    have "snd ` set table \<inter> fst ` set acc = {}"
      using Cons.prems(2) by auto
    from Cons.IH[OF d this] True show ?thesis unfolding x by simp
  next
    case False
    let ?acc = "acc @ [(lang, length (rglob fs root ext))]"
    have "snd ` set table \<inter> fst ` set ?acc = {}"
      using Cons.prems(2) nl by auto
    from Cons.IH[OF d this] False show ?thesis
      unfolding x by (simp add: update_new_key[OF new])
  qed
qed

lemma analyzer_labels_distinct: "distinct (map snd analyzer_language_extensions)"
  by (simp add: analyzer_language_extensions_def)

lemma analyzer_detected_table_order:
  "analyzer_detected e fs
     = map (\<lambda>x. (snd x, length (rglob fs (project_root e) (fst x))))
         (filter (\<lambda>x. rglob fs (project_root e) (fst x) \<noteq> []) analyzer_language_extensions)"
  unfolding analyzer_detected_def
  using analyzer_fold_table_order[OF analyzer_labels_distinct, of "[]" fs "project_root e"]
  by simp

lemma scenario_ranking:
  "map fst (sort_key (\<lambda>x. - int (snd x))
     (map (\<lambda>x. (snd x, scenario_count (fst x)))
        (filter (\<lambda>x. scenario_count (fst x) \<noteq> 0) analyzer_language_extensions)))
   = [''Python'', ''JavaScript'']"
  by code_simp

lemma count_file_commute: "count_file x \<circ> count_file y = count_file y \<circ> count_file x"
  by (simp add: fun_eq_iff count_file_def)

lemma scenario_name_facts:
  "name_suffix ''a.py'' = ''.py''" "name_suffix ''b.js'' = ''.js''" "name_suffix ''c.py'' = ''.py''"
  "\<not> str_contains ''test'' (lower ''a.py'')" "\<not> str_contains ''test'' (lower ''b.js'')"
  "\<not> str_contains ''test'' (lower ''c.py'')"
  "\<not> is_excluded [''a.py'']" "\<not> is_excluded [''b.js'']" "\<not> is_excluded [''tests'', ''c.py'']"
  "sublist ''test'' (lower ''/tests'')"
  by code_simp+

lemma lower_append: "lower (xs @ ys) = lower xs @ lower ys"
  by (simp add: lower_def)

lemma path_str_snoc: "path_str (p @ [c]) = slashed p @ CHR ''/'' # c"
  by (simp add: path_str_def slashed_def)

lemma test_in_tests_folder: "str_contains ''test'' (lower (path_str (p @ [''tests''])))"
proof -
  have "lower (path_str (p @ [''tests''])) = lower (slashed p) @ lower ''/tests''"
    by (simp add: path_str_snoc lower_append)
  then show ?thesis
    using scenario_name_facts(10) by (simp add: str_contains_sublist sublist_append)
qed

lemma scenario_stat:
  assumes r: "resolve fs root = Some q" and d: "dir_at fs q"
    and tree: "mset (filter (\<lambda>x. strict_prefix q (fst x)) fs) = mset (scenario_files q)"
  shows "is_file fs (root @ [''a.py''])" "is_file fs (root @ [''b.js''])"
    "\<not> is_file fs (root @ [''tests''])" "is_file fs (root @ [''tests'', ''c.py''])"
proof -
  have v: "valid_path [''a.py'']" "valid_path [''b.js'']" "valid_path [''tests'']"
    "valid_path [''c.py'']"
    by (simp_all add: valid_path_def)
  have ra: "resolve fs (root @ [''a.py'']) = Some (q @ [''a.py''])"
    using resolve_snocI[OF r d v(1)] by simp
  have rb: "resolve fs (root @ [''b.js'']) = Some (q @ [''b.js''])"
    using resolve_snocI[OF r d v(2)] by simp
  have rt: "resolve fs (root @ [''tests'']) = Some (q @ [''tests''])"
    using resolve_snocI[OF r d v(3)] by simp
  have ea: "entry_at fs (q @ [''a.py'']) = Some (File (Text ''import os''))"
    using scenario_entry[OF tree, of "[''a.py'']"] by (simp add: scenario_files_def)
  have eb: "entry_at fs (q @ [''b.js'']) = Some (File (Text ''let x = 1''))"
    using scenario_entry[OF tree, of "[''b.js'']"] by (simp add: scenario_files_def)
  have et: "entry_at fs (q @ [''tests'']) = Some Dir"
    using scenario_entry[OF tree, of "[''tests'']"] by (simp add: scenario_files_def)
  have ec: "entry_at fs (q @ [''tests'', ''c.py'']) = Some (File (Text ''assert True''))"
    using scenario_entry[OF tree, of "[''tests'', ''c.py'']"] by (simp add: scenario_files_def)
  have dt: "dir_at fs (q @ [''tests''])"
    using et by (simp add: dir_at_def)
  have rc: "resolve fs (root @ [''tests'', ''c.py'']) = Some (q @ [''tests'', ''c.py''])"
    using resolve_snocI[OF rt dt v(4)] by simp
  show "is_file fs (root @ [''a.py''])" using ra ea by (simp add: is_file_def stat_def)
  show "is_file fs (root @ [''b.js''])" using rb eb by (simp add: is_file_def stat_def)
  show "\<not> is_file fs (root @ [''tests''])" using rt et by (simp add: is_file_def stat_def)
  show "is_file fs (root @ [''tests'', ''c.py''])" using rc ec by (simp add: is_file_def stat_def)
qed

lemma scenario_scan:
  assumes r: "resolve fs (project_root e) = Some q" and d: "dir_at fs q"
    and tree: "mset (filter (\<lambda>x. strict_prefix q (fst x)) fs) = mset (scenario_files q)"
    and ex: "\<not> is_excluded (project_root e)"
  shows "mset (scan_files e fs)
     = mset [project_root e @ [''a.py''], project_root e @ [''b.js''],
             project_root e @ [''tests'', ''c.py'']]"
proof -
  let ?keep = "\<lambda>file. is_file fs file \<and> \<not> is_excluded file"
  have "mset (scan_files e fs) = filter_mset ?keep (mset (rglob fs (project_root e) []))"
    by (simp add: scan_files_def)
  also have "mset (rglob fs (project_root e) []) = mset (map ((@) (project_root e)) scenario_names)"
    using scenario_rglob[OF r d tree, of "[]"] by simp
  also have "filter_mset ?keep \<dots> = mset (filter ?keep (map ((@) (project_root e)) scenario_names))"
    by simp
  also have "filter ?keep (map ((@) (project_root e)) scenario_names)
      = [project_root e @ [''a.py''], project_root e @ [''b.js''],
         project_root e @ [''tests'', ''c.py'']]"
    using scenario_stat[OF r d tree] ex scenario_name_facts(7-9)
    by (simp add: scenario_names_def is_excluded_append)
  finally show ?thesis .
qed

text \<open>
  Claim C7, as the code has it. Take a root that resolves to a directory holding exactly
  \<^verbatim>\<open>a.py\<close>, \<^verbatim>\<open>b.js\<close> and \<^verbatim>\<open>tests/c.py\<close>, enumerated in any order, whose path contains
  no exclusion marker and does not contain \<^verbatim>\<open>test\<close> in any letter case. Then the counts
  are total 3, source 3, test 1, config 0, and the languages are Python before
  JavaScript. The ranking is the stable sort by descending file count of the detected
  labels taken in the order of the extension table, so the table order breaks ties.
\<close>

theorem scenario_counts:
  assumes r: "resolve fs (project_root e) = Some q" and d: "dir_at fs q"
    and tree: "mset (filter (\<lambda>x. strict_prefix q (fst x)) fs) = mset (scenario_files q)"
    and ex: "\<not> is_excluded (project_root e)"
    and nt: "\<not> str_contains ''test'' (lower (path_str (project_root e)))"
  shows "count_files e fs
      = \<lparr> total_files = 3, source_files = 3, test_files = 1, config_files = 0 \<rparr>
    \<and> analyzer_detect_languages e fs = [''Python'', ''JavaScript'']
    \<and> analyzer_detect_languages e fs
      = map fst (sort_key (\<lambda>x. - int (snd x))
          (map (\<lambda>x. (snd x, length (rglob fs (project_root e) (fst x))))
             (filter (\<lambda>x. rglob fs (project_root e) (fst x) \<noteq> []) analyzer_language_extensions)))"
proof -
  let ?root = "project_root e"
  let ?init = "\<lparr> total_files = 0, source_files = 0, test_files = 0, config_files = 0 \<rparr>"
  have "fold count_file (scan_files e fs)
      = fold count_file [?root @ [''a.py''], ?root @ [''b.js''], ?root @ [''tests'', ''c.py'']]"
    using count_file_commute scenario_scan[OF r d tree ex] by (rule fold_multiset_equiv)
  then have "count_files e fs
      = fold count_file [?root @ [''a.py''], ?root @ [''b.js''], ?root @ [''tests'', ''c.py'']] ?init"
    by (simp add: count_files_def)
  also have "\<dots> = \<lparr> total_files = 3, source_files = 3, test_files = 1, config_files = 0 \<rparr>"
  proof -
    have parent: "path_parent (?root @ [''tests'', ''c.py'']) = ?root @ [''tests'']"
      by (simp add: path_parent_def butlast_append)
    show ?thesis
      using nt test_in_tests_folder[of ?root] scenario_name_facts(1-6)
      by (simp add: count_file_def path_name_def path_parent_def butlast_append)
  qed
  finally have counts: "count_files e fs
      = \<lparr> total_files = 3, source_files = 3, test_files = 1, config_files = 0 \<rparr>" .
  have len: "length (rglob fs ?root ext) = scenario_count ext" for ext
    using mset_eq_length[OF scenario_rglob[OF r d tree, of ext]]
    by (simp add: scenario_count_def)
  have nonempty: "(rglob fs ?root ext \<noteq> []) = (scenario_count ext \<noteq> 0)" for ext
    using len[of ext] by (metis length_0_conv)
  have ranked: "analyzer_detect_languages e fs
      = map fst (sort_key (\<lambda>x. - int (snd x))
          (map (\<lambda>x. (snd x, length (rglob fs ?root (fst x))))
             (filter (\<lambda>x. rglob fs ?root (fst x) \<noteq> []) analyzer_language_extensions)))"
    by (simp only: analyzer_detect_languages_def analyzer_detected_table_order)
  also have "\<dots> = [''Python'', ''JavaScript'']"
    unfolding len nonempty by (rule scenario_ranking)
  finally show ?thesis using counts ranked by simp
qed

theorem scenario_counts_witness:
  "resolve sample_tree (project_root sample_env) = Some [''home'', ''dev'', ''shop'']
   \<and> dir_at sample_tree [''home'', ''dev'', ''shop'']
   \<and> filter (\<lambda>x. strict_prefix [''home'', ''dev'', ''shop''] (fst x)) sample_tree
        = scenario_files [''home'', ''dev'', ''shop'']
   \<and> \<not> is_excluded (project_root sample_env)
   \<and> \<not> str_contains ''test'' (lower (path_str (project_root sample_env)))
   \<and> count_files sample_env sample_tree
        = \<lparr> total_files = 3, source_files = 3, test_files = 1, config_files = 0 \<rparr>
   \<and> analyzer_detect_languages sample_env sample_tree = [''Python'', ''JavaScript'']"
proof -
  have h1: "resolve sample_tree (project_root sample_env) = Some [''home'', ''dev'', ''shop'']"
    by code_simp
  have h2: "dir_at sample_tree [''home'', ''dev'', ''shop'']"
    by code_simp
  have f: "filter (\<lambda>x. strict_prefix [''home'', ''dev'', ''shop''] (fst x)) sample_tree
        = scenario_files [''home'', ''dev'', ''shop'']"
    by code_simp
  have h3: "mset (filter (\<lambda>x. strict_prefix [''home'', ''dev'', ''shop''] (fst x)) sample_tree)
        = mset (scenario_files [''home'', ''dev'', ''shop''])"
    unfolding f ..
  have h4: "\<not> is_excluded (project_root sample_env)"
    by code_simp
  have h5: "\<not> str_contains ''test'' (lower (path_str (project_root sample_env)))"
    by code_simp
  from scenario_counts[OF h1 h2 h3 h4 h5] h1 h2 f h4 h5 show ?thesis by simp
qed

text \<open>
  Claim C7 as stated fails: in the project \<^verbatim>\<open>/home/dev/contest\<close>, whose path has no
  exclusion marker, the same three files are all counted as tests, because the path of
  the parent directory of every file contains \<^verbatim>\<open>test\<close>.
\<close>

theorem scenario_in_a_test_named_root:
  "\<not> is_excluded (project_root contest_env)
   \<and> map (relative_str (project_root contest_env)) (scan_files contest_env contest_tree)
        = [''a.py'', ''b.js'', ''tests/c.py'']
   \<and> count_files contest_env contest_tree
        = \<lparr> total_files = 3, source_files = 3, test_files = 3, config_files = 0 \<rparr>"
  by code_simp

end
